theory Spec2Isabelle
  imports
    Main
    "HOL-Library.Char_ord"
    "HOL-Library.List_Lexorder"
    "HOL-Library.Product_Lexorder"
    "HOL-Library.Multiset"
begin

section \<open>Strings as the Go code uses them\<close>

text \<open>
  A Go string is a sequence of bytes, here a \<open>char list\<close>. The comparison \<open><\<close> of two Go
  strings is the bytewise lexicographic one (a proper prefix is smaller), which is the order
  of \<open>HOL-Library.List_Lexorder\<close> over the byte order of \<open>HOL-Library.Char_ord\<close>.
  The functions below are the ones of Go's \<open>strings\<close> package that the sources call,
  restricted to the arguments they are called with (single-byte separators).
\<close>

fun HasPrefix :: "string \<Rightarrow> string \<Rightarrow> bool" where
  "HasPrefix s [] = True"
| "HasPrefix [] (p # ps) = False"
| "HasPrefix (c # cs) (p # ps) = (c = p \<and> HasPrefix cs ps)"

text \<open>\<open>strings.Index\<close>: the position of the first occurrence, \<open>None\<close> for Go's \<open>-1\<close>.\<close>

fun Index :: "string \<Rightarrow> string \<Rightarrow> nat option" where
  "Index [] substr = (if substr = [] then Some 0 else None)"
| "Index (c # cs) substr =
     (if HasPrefix (c # cs) substr then Some 0 else map_option Suc (Index cs substr))"

definition Contains :: "string \<Rightarrow> string \<Rightarrow> bool" where
  "Contains s substr = (Index s substr \<noteq> None)"

text \<open>\<open>strings.IndexRune\<close> and \<open>strings.ContainsRune\<close> for a one-byte rune.\<close>

fun IndexRune :: "string \<Rightarrow> char \<Rightarrow> nat option" where
  "IndexRune [] r = None"
| "IndexRune (c # cs) r = (if c = r then Some 0 else map_option Suc (IndexRune cs r))"

definition ContainsRune :: "string \<Rightarrow> char \<Rightarrow> bool" where
  "ContainsRune s r = (IndexRune s r \<noteq> None)"

text \<open>\<open>strings.ContainsAny\<close>: some byte of \<open>chars\<close> occurs in \<open>s\<close>.\<close>

fun ContainsAny :: "string \<Rightarrow> string \<Rightarrow> bool" where
  "ContainsAny [] chars = False"
| "ContainsAny (c # cs) chars = (c \<in> set chars \<or> ContainsAny cs chars)"

text \<open>
  \<open>strings.SplitN(s, "/", 2)\<close>: the whole string when it has no slash, otherwise the
  part before the first slash and the part after it.
\<close>

definition SplitN2 :: "string \<Rightarrow> string list" where
  "SplitN2 s =
     (case IndexRune s CHR ''/'' of
        None \<Rightarrow> [s]
      | Some i \<Rightarrow> [take i s, drop (Suc i) s])"

text \<open>
  \<open>strings.Replace(s, old, new, 1)\<close>: the first occurrence of \<open>old\<close> is replaced; an empty
  \<open>old\<close> matches at the beginning of the string.
\<close>

definition Replace1 :: "string \<Rightarrow> string \<Rightarrow> string \<Rightarrow> string" where
  "Replace1 s old new =
     (case Index s old of
        None \<Rightarrow> s
      | Some i \<Rightarrow> take i s @ new @ drop (i + length old) s)"

section \<open>Search results and their ranking (registry/service.go)\<close>

record SearchResultExt =
  IndexName :: string
  RegistryName :: string
  StarCount :: int
  Name :: string
  IsOfficial :: bool
  IsAutomated :: bool
  Description :: string

text \<open>
  \<open>getSearchResultsCmpFunc\<close>: the function \<open>less\<close> that the factory returns, with the
  source's chain of tests in the source's order. \<open>StarCount\<close> is only ever compared, so the
  machine integer is read as its value.
\<close>

definition getSearchResultsCmpFunc ::
  "bool \<Rightarrow> SearchResultExt \<Rightarrow> SearchResultExt \<Rightarrow> bool" where
  "getSearchResultsCmpFunc withIndex fst' snd' =
     (if withIndex \<and> IndexName fst' \<noteq> IndexName snd' then IndexName fst' < IndexName snd'
      else if withIndex \<and> StarCount fst' \<noteq> StarCount snd' then StarCount fst' > StarCount snd'
      else if RegistryName fst' \<noteq> RegistryName snd' then RegistryName fst' < RegistryName snd'
      else if \<not> withIndex \<and> StarCount fst' \<noteq> StarCount snd' then StarCount fst' > StarCount snd'
      else if Name fst' \<noteq> Name snd' then Name fst' < Name snd'
      else Description fst' < Description snd')"

text \<open>
  \<open>by(cmpFunc).Sort(results)\<close> hands the slice to \<open>sort.Sort\<close> of the Go standard library
  with \<open>Less(i, j) = By(&Results[i], &Results[j])\<close>. The library routine is not part of the
  repository. For a slice of fewer than twelve entries it is the library's insertion sort,
  which leaves entries of which neither is \<open>Less\<close> than the other in the order they came in;
  that sort is the model: an entry is put before the first entry of the sorted rest that is
  not \<open>Less\<close> than it. For a longer slice the library does not fix the order of such
  entries; the statements below about the sorted slice speak of the sort keys only.
\<close>

fun insertBy :: "('a \<Rightarrow> 'a \<Rightarrow> bool) \<Rightarrow> 'a \<Rightarrow> 'a list \<Rightarrow> 'a list" where
  "insertBy lt x [] = [x]"
| "insertBy lt x (y # ys) = (if lt y x then y # insertBy lt x ys else x # y # ys)"

definition Sort :: "('a \<Rightarrow> 'a \<Rightarrow> bool) \<Rightarrow> 'a list \<Rightarrow> 'a list" where
  "Sort lt results = foldr (insertBy lt) results []"

text \<open>
  The sort keys as the specification words them: a tuple compared lexicographically, the
  star count negated so that more stars come first.
\<close>

definition key_withIndex :: "SearchResultExt \<Rightarrow> string \<times> int \<times> string \<times> string \<times> string" where
  "key_withIndex r = (IndexName r, - StarCount r, RegistryName r, Name r, Description r)"

definition key_noIndex :: "SearchResultExt \<Rightarrow> string \<times> int \<times> string \<times> string" where
  "key_noIndex r = (RegistryName r, - StarCount r, Name r, Description r)"

text \<open>
  \<open>QueryRegistries()\<close> is a function of the registry package whose body is not among the
  sources; the list it returns is the parameter \<open>QueryRegistries\<close> below. The two inner loops
  of \<open>removeSearchDuplicates\<close> look an index name up in it: the position of the first equal
  entry, and the length of the list when there is none.
\<close>

fun prio :: "string list \<Rightarrow> string \<Rightarrow> nat" where
  "prio [] indexName = 0"
| "prio (q # qs) indexName = (if indexName = q then 0 else Suc (prio qs indexName))"

text \<open>
  The loop \<open>for i := 1; i < len(data); i++\<close> of \<open>removeSearchDuplicates\<close>, over the rest of
  \<open>data\<close>, with the loop's variables \<open>prevIndex\<close> and \<open>res\<close> passed along. \<open>res[prevIndex]\<close> is
  read and written by index as in the source.
\<close>

fun removeLoop ::
  "string list \<Rightarrow> nat \<Rightarrow> SearchResultExt list \<Rightarrow> SearchResultExt list \<Rightarrow> SearchResultExt list" where
  "removeLoop QueryRegistries prevIndex res [] = res"
| "removeLoop QueryRegistries prevIndex res (curr' # data) =
     (let prev = res ! prevIndex in
      if RegistryName prev = RegistryName curr' \<and> Name prev = Name curr' then
        (let prioPrev = prio QueryRegistries (IndexName prev);
             prioCurr = prio QueryRegistries (IndexName curr')
         in if prioPrev > prioCurr \<or> (prioPrev = prioCurr \<and> StarCount prev < StarCount curr')
            then removeLoop QueryRegistries prevIndex (res[prevIndex := curr']) data
            else removeLoop QueryRegistries prevIndex res data)
      else removeLoop QueryRegistries (prevIndex + 1) (res @ [curr']) data)"

definition removeSearchDuplicates ::
  "string list \<Rightarrow> SearchResultExt list \<Rightarrow> SearchResultExt list" where
  "removeSearchDuplicates QueryRegistries data =
     (case data of
        [] \<Rightarrow> []
      | d0 # rest \<Rightarrow> removeLoop QueryRegistries 0 [d0] rest)"

text \<open>
  The last three statements of \<open>Search\<close>: sort with the comparator built from \<open>!noIndex\<close>, and
  remove duplicates only when \<open>noIndex\<close> is set.
\<close>

definition rankResults ::
  "string list \<Rightarrow> bool \<Rightarrow> SearchResultExt list \<Rightarrow> SearchResultExt list" where
  "rankResults QueryRegistries noIndex results =
     (let sorted_results = Sort (getSearchResultsCmpFunc (\<not> noIndex)) results
      in if noIndex then removeSearchDuplicates QueryRegistries sorted_results
         else sorted_results)"

text \<open>
  The duplicate removal as the specification words it: scan the sequence, keep one entry per
  run of consecutive entries with the same registry and name, and of two colliding entries
  keep the one whose index comes earlier in the configured list, then the one with more stars.
\<close>

definition keepOf :: "string list \<Rightarrow> SearchResultExt \<Rightarrow> SearchResultExt \<Rightarrow> SearchResultExt" where
  "keepOf QueryRegistries kept curr' =
     (if prio QueryRegistries (IndexName curr') < prio QueryRegistries (IndexName kept) then curr'
      else if prio QueryRegistries (IndexName kept) < prio QueryRegistries (IndexName curr') then kept
      else if StarCount kept < StarCount curr' then curr'
      else kept)"

fun collapseRuns ::
  "string list \<Rightarrow> SearchResultExt \<Rightarrow> SearchResultExt list \<Rightarrow> SearchResultExt list" where
  "collapseRuns QueryRegistries kept [] = [kept]"
| "collapseRuns QueryRegistries kept (curr' # rest) =
     (if RegistryName kept = RegistryName curr' \<and> Name kept = Name curr'
      then collapseRuns QueryRegistries (keepOf QueryRegistries kept curr') rest
      else kept # collapseRuns QueryRegistries curr' rest)"

definition dedupSpec :: "string list \<Rightarrow> SearchResultExt list \<Rightarrow> SearchResultExt list" where
  "dedupSpec QueryRegistries data =
     (case data of [] \<Rightarrow> [] | d0 # rest \<Rightarrow> collapseRuns QueryRegistries d0 rest)"

section \<open>Errors\<close>

text \<open>
  Every error value the modelled functions create, one constructor for each place that
  creates one, \<open>Foreign\<close> for an error handed back by a collaborator outside the
  repository (the reference grammar of the distribution library), and \<open>Panic\<close> for a run-time
  panic of the Go program.
  \<open>fallbackError\<close> is the registry package's wrapper type that \<open>Auth\<close> and \<open>searchTerm\<close> test for
  with a type assertion; \<open>InvalidParameter\<close> is the wrapper of \<open>errdefs\<close>.
\<close>

datatype error =
    ErrInvalidHostname string
  | ErrHexIdentifier string
  | ErrNotLowercase
  | ErrNoName string
  | ErrNoConfiguredRegistry
  | ErrNoConfiguredRepository
  | ErrUnableToParse error
  | fallbackError error
  | InvalidParameter error
  | Foreign string
  | Panic string

section \<open>Searching (registry/service.go)\<close>

text \<open>
  \<open>splitReposSearchTerm\<close>. \<open>IndexServerName()\<close> is a function of the registry package that
  is not among the sources: its value is the first parameter.
\<close>

definition splitReposSearchTerm :: "string \<Rightarrow> string \<Rightarrow> bool \<Rightarrow> string \<times> string" where
  "splitReposSearchTerm IndexServerName reposName fixMissingIndex =
     (let nameParts = SplitN2 reposName in
      if length nameParts = 1 \<or>
         (\<not> Contains (nameParts ! 0) ''.'' \<and> \<not> Contains (nameParts ! 0) '':'' \<and>
          nameParts ! 0 \<noteq> ''localhost'')
      then (if fixMissingIndex then IndexServerName else '''', reposName)
      else (nameParts ! 0, nameParts ! 1))"

definition isReposSearchTermFullyQualified :: "string \<Rightarrow> bool" where
  "isReposSearchTermFullyQualified term' =
     (fst (splitReposSearchTerm '''' term' False) \<noteq> '''')"

record AuthConfig =
  Username :: string
  Password :: string
  ServerAddress :: string
  IdentityToken :: string

record IndexInfo =
  index_Name :: string
  Official :: bool
  Secure :: bool

text \<open>One entry of what a provider answers, and the answer (\<open>registrytypes.SearchResults\<close>).\<close>

record SearchResult =
  res_StarCount :: int
  res_IsOfficial :: bool
  res_Name :: string
  res_IsAutomated :: bool
  res_Description :: string

record SearchResults =
  Query :: string
  NumResults :: int
  Results :: "SearchResult list"

text \<open>
  What \<open>searchTerm\<close> calls and the sources do not contain: the validation of the term, the
  index lookup, the V1 endpoint with its HTTP client, the V2 token client, the authorisation
  of the V1 client, and the provider's search itself (\<open>newSession\<close> followed by
  \<open>SearchRepositories\<close>). Endpoints and clients are opaque (\<open>'ep\<close>, \<open>'cl\<close>). The user agent
  and the headers are only passed on to these functions and are part of them here.
  A Go function that returns a value and an error becomes a function into a sum.
\<close>

record ('ep, 'cl) searchEnv =
  IndexServerName :: string
  validateNoScheme :: "string \<Rightarrow> error option"
  newIndexInfo :: "string \<Rightarrow> error + IndexInfo"
  NewV1Endpoint :: "IndexInfo \<Rightarrow> error + 'ep"
  endpoint_client :: "'ep \<Rightarrow> 'cl"
  v2AuthHTTPClient :: "'ep \<Rightarrow> AuthConfig \<Rightarrow> error + ('cl \<times> bool)"
  copyClientFeatures :: "'cl \<Rightarrow> 'cl \<Rightarrow> 'cl"
  authorizeClient :: "'cl \<Rightarrow> AuthConfig option \<Rightarrow> 'ep \<Rightarrow> error option"
  SearchRepositories :: "'cl \<Rightarrow> AuthConfig option \<Rightarrow> 'ep \<Rightarrow> string \<Rightarrow> int \<Rightarrow> error + SearchResults"

text \<open>
  The choice of the HTTP client in \<open>searchTerm\<close> (the block from \<open>var client *http.Client\<close>
  to the end of \<open>if client == nil\<close>): the V2 client when the credentials carry an identity
  token and a user name and the V2 handshake finds a V2 endpoint; the authorised V1 client
  otherwise, also after a \<open>fallbackError\<close> of the handshake; any other error is returned.
\<close>

definition v2Client ::
  "('ep, 'cl) searchEnv \<Rightarrow> AuthConfig option \<Rightarrow> 'ep \<Rightarrow> error + 'cl option" where
  "v2Client E authConfig endpoint =
     (case authConfig of
        None \<Rightarrow> Inr None
      | Some ac \<Rightarrow>
          if IdentityToken ac \<noteq> '''' \<and> Username ac \<noteq> '''' then
            (case v2AuthHTTPClient E endpoint ac of
               Inl (fallbackError fErr) \<Rightarrow> Inr None
             | Inl err \<Rightarrow> Inl err
             | Inr (v2, foundV2) \<Rightarrow>
                 if foundV2 then Inr (Some (copyClientFeatures E v2 (endpoint_client E endpoint)))
                 else Inr None)
          else Inr None)"

definition searchClient ::
  "('ep, 'cl) searchEnv \<Rightarrow> AuthConfig option \<Rightarrow> 'ep \<Rightarrow> error + 'cl" where
  "searchClient E authConfig endpoint =
     (case v2Client E authConfig endpoint of
        Inl err \<Rightarrow> Inl err
      | Inr (Some client) \<Rightarrow> Inr client
      | Inr None \<Rightarrow>
          (let client = endpoint_client E endpoint in
           case authorizeClient E client authConfig endpoint of
             Some err \<Rightarrow> Inl err
           | None \<Rightarrow> Inr client))"

text \<open>The item built for one provider result, in the second loop of \<open>searchTerm\<close>.\<close>

definition searchItem :: "IndexInfo \<Rightarrow> SearchResult \<Rightarrow> SearchResultExt" where
  "searchItem index result =
     (let item = \<lparr>IndexName = index_Name index, RegistryName = index_Name index,
                  StarCount = res_StarCount result, Name = res_Name result,
                  IsOfficial = res_IsOfficial result, IsAutomated = res_IsAutomated result,
                  Description = res_Description result\<rparr>;
          (newRegistryName, newName) = splitReposSearchTerm '''' (res_Name result) False
      in if newRegistryName \<noteq> '''' then item\<lparr>RegistryName := newRegistryName, Name := newName\<rparr>
         else item)"

text \<open>
  \<open>searchTerm\<close> in two parts. \<open>searchQuery\<close> is the function up to and including the call of
  \<open>SearchRepositories\<close>: it does not read \<open>*outs\<close>, and gives the error that makes
  \<open>searchTerm\<close> return, or the index and the provider's answer. \<open>searchTerm\<close> then is the
  test \<open>err != nil || results.NumResults < 1\<close> and the appending to \<open>*outs\<close>; it returns
  the error and the slice \<open>*outs\<close> after the call. The mutex is held around \<open>newIndexInfo\<close>
  only and is left out.
\<close>

definition searchQuery ::
  "('ep, 'cl) searchEnv \<Rightarrow> string \<Rightarrow> int \<Rightarrow> AuthConfig option
     \<Rightarrow> error + (IndexInfo \<times> SearchResults)" where
  "searchQuery E term' limit authConfig =
     (case validateNoScheme E term' of
        Some err \<Rightarrow> Inl err
      | None \<Rightarrow>
     (let (indexName, remoteName) = splitReposSearchTerm (IndexServerName E) term' True in
      case newIndexInfo E indexName of
        Inl err \<Rightarrow> Inl err
      | Inr index \<Rightarrow>
     (case NewV1Endpoint E index of
        Inl err \<Rightarrow> Inl err
      | Inr endpoint \<Rightarrow>
     (case searchClient E authConfig endpoint of
        Inl err \<Rightarrow> Inl err
      | Inr client \<Rightarrow>
     (let localName =
            (if Official index \<and> HasPrefix remoteName ''library/''
             then SplitN2 remoteName ! 1 else remoteName)
      in case SearchRepositories E client authConfig endpoint localName limit of
           Inl err \<Rightarrow> Inl err
         | Inr results \<Rightarrow> Inr (index, results))))))"

definition searchTerm ::
  "('ep, 'cl) searchEnv \<Rightarrow> string \<Rightarrow> int \<Rightarrow> AuthConfig option \<Rightarrow> SearchResultExt list
     \<Rightarrow> error option \<times> SearchResultExt list" where
  "searchTerm E term' limit authConfig outs =
     (case searchQuery E term' limit authConfig of
        Inl err \<Rightarrow> (Some err, outs)
      | Inr (index, results) \<Rightarrow>
          if NumResults results < 1 then (None, outs)
          else (None, outs @ map (searchItem index) (Results results)))"

text \<open>
  \<open>Search\<close>. The goroutines started for an unqualified term run \<open>searchTerm\<close> on the shared
  slice and send their error on a channel; the parent receives one error for each registry.
  The order in which the tasks finish is not fixed by the program: it is the parameter
  \<open>order\<close>, the task numbers in the order of their completion, and every task is taken to
  run as a whole (a task's reading and replacing of the shared slice is not interleaved with
  another's). \<open>receiveAll\<close> is the receiving loop with its variables \<open>err\<close> and
  \<open>successfulSearch\<close>. The first component of what \<open>Search\<close> returns lists the terms
  \<open>searchTerm\<close> was called with, the other two are the Go results (the slice, \<open>[]\<close> for
  \<open>nil\<close>, and the error).
\<close>

definition taskTerm :: "string list \<Rightarrow> string \<Rightarrow> nat \<Rightarrow> string" where
  "taskTerm QueryRegistries term' i =
     (if i > 0 then (QueryRegistries ! i) @ ''/'' @ term' else term')"

fun receiveAll ::
  "('ep, 'cl) searchEnv \<Rightarrow> int \<Rightarrow> AuthConfig option \<Rightarrow> string list
     \<Rightarrow> SearchResultExt list \<times> error option \<times> bool
     \<Rightarrow> SearchResultExt list \<times> error option \<times> bool" where
  "receiveAll E limit authConfig [] st = st"
| "receiveAll E limit authConfig (tmp # tasks) (results, err, successfulSearch) =
     (let (err', results') = searchTerm E tmp limit authConfig results
      in receiveAll E limit authConfig tasks
           (results', err', if err' = None then True else successfulSearch))"

definition Search ::
  "('ep, 'cl) searchEnv \<Rightarrow> string list \<Rightarrow> nat list \<Rightarrow> string \<Rightarrow> int \<Rightarrow> AuthConfig option
     \<Rightarrow> bool \<Rightarrow> string list \<times> SearchResultExt list \<times> error option" where
  "Search E QueryRegistries order term' limit authConfig noIndex =
     (if isReposSearchTermFullyQualified term' then
        (case searchTerm E term' limit authConfig [] of
           (Some err, results) \<Rightarrow> ([term'], [], Some err)
         | (None, results) \<Rightarrow> ([term'], rankResults QueryRegistries noIndex results, None))
      else if length QueryRegistries < 1 then ([], [], Some ErrNoConfiguredRepository)
      else
        (let tasks = map (taskTerm QueryRegistries term') order;
             (results, err, successfulSearch) =
                receiveAll E limit authConfig tasks ([], None, False)
         in if \<not> successfulSearch then (tasks, [], err)
            else (tasks, rankResults QueryRegistries noIndex results, None)))"

text \<open>
  For stating what \<open>Search\<close> does with its tasks: the error with which the task for a term
  ends, and the entries it appends to the shared slice. Neither depends on the slice the
  task finds (lemmas \<open>fst_searchTerm\<close> and \<open>snd_searchTerm\<close>).
\<close>

definition taskError ::
  "('ep, 'cl) searchEnv \<Rightarrow> int \<Rightarrow> AuthConfig option \<Rightarrow> string \<Rightarrow> error option" where
  "taskError E limit authConfig term' = fst (searchTerm E term' limit authConfig [])"

definition contribution ::
  "('ep, 'cl) searchEnv \<Rightarrow> int \<Rightarrow> AuthConfig option \<Rightarrow> string \<Rightarrow> SearchResultExt list" where
  "contribution E limit authConfig term' = snd (searchTerm E term' limit authConfig [])"

section \<open>Endpoints and authentication (registry/service.go)\<close>

text \<open>
  Modelled from the spec: the type \<open>APIVersion\<close> (declared in registry/types.go, not among
  the sources). Specification, section 3: the version of an endpoint is V1 or V2.
\<close>

datatype APIVersion = APIVersion1 | APIVersion2

text \<open>
  Modelled from the spec: the TLS configuration of an endpoint (\<open>*tls.Config\<close>, built by
  \<open>newTLSConfig\<close>, not among the sources). Specification, section 4.3, step 5: the strict
  platform default, or the permissive configuration that skips verification.
\<close>

datatype tlsConfig = StrictTLS | InsecureSkipVerify

text \<open>The struct \<open>APIEndpoint\<close> of registry/service.go.\<close>

record APIEndpoint =
  Mirror :: bool
  URL :: string
  Version :: APIVersion
  AllowNondistributableArtifacts :: bool
  Official_endpoint :: bool
  TrimHostname :: bool
  TLSConfig :: tlsConfig

text \<open>
  Modelled from the spec: the service configuration (\<open>serviceConfig\<close>, declared in
  registry/config.go, not among the sources), as far as the endpoint lookup reads it.
  Specification, sections 3, 4.2 and 4.3: the \<open>V2Only\<close> flag, the mirrors, the hosts allowed
  to serve nondistributable artifacts, and the classification of a host (\<open>classify\<close>:
  whether the host is secure and whether it is the official registry; it fails for a host
  that cannot be resolved or validated).
\<close>

record hostClass =
  secure :: bool
  official :: bool

record serviceConfig =
  V2Only :: bool
  Mirrors :: "string list"
  allowNondistributable :: "string \<Rightarrow> bool"
  classify :: "string \<Rightarrow> error + hostClass"

text \<open>
  Modelled from the spec: the TLS policy of a classified host (\<open>newTLSConfig\<close>, not among
  the sources). Specification, section 4.3, step 5.
\<close>

definition tlsOf :: "hostClass \<Rightarrow> tlsConfig" where
  "tlsOf c = (if secure c then StrictTLS else InsecureSkipVerify)"

text \<open>
  Modelled from the spec: the mirror endpoints of \<open>lookupV2Endpoints\<close>
  (registry/service_v2.go is not among the sources). Specification, section 4.3, step 2:
  one V2 mirror endpoint for each configured mirror, in the configured order.
\<close>

fun mirrorEndpoints :: "serviceConfig \<Rightarrow> string list \<Rightarrow> error + APIEndpoint list" where
  "mirrorEndpoints config [] = Inr []"
| "mirrorEndpoints config (mirror # mirrors) =
     (case classify config mirror of
        Inl err \<Rightarrow> Inl err
      | Inr c \<Rightarrow>
          (case mirrorEndpoints config mirrors of
             Inl err \<Rightarrow> Inl err
           | Inr endpoints \<Rightarrow>
               Inr (\<lparr>Mirror = True, URL = mirror, Version = APIVersion2,
                     AllowNondistributableArtifacts = False, Official_endpoint = False,
                     TrimHostname = True, TLSConfig = tlsOf c\<rparr> # endpoints)))"

text \<open>
  Modelled from the spec: \<open>lookupV2Endpoints\<close> (registry/service_v2.go is not among the
  sources). Specification, section 4.3, steps 1 to 3 and 5: classify the host, the V2 mirror
  endpoints, then one V2 endpoint for the host itself; an endpoint of a secure host carries
  the strict TLS configuration, one of an insecure host the permissive one.
\<close>

definition lookupV2Endpoints :: "serviceConfig \<Rightarrow> string \<Rightarrow> error + APIEndpoint list" where
  "lookupV2Endpoints config hostname =
     (case classify config hostname of
        Inl err \<Rightarrow> Inl err
      | Inr c \<Rightarrow>
          (case mirrorEndpoints config (Mirrors config) of
             Inl err \<Rightarrow> Inl err
           | Inr mirrors \<Rightarrow>
               Inr (mirrors @
                    [\<lparr>Mirror = False, URL = ''https://'' @ hostname, Version = APIVersion2,
                      AllowNondistributableArtifacts = allowNondistributable config hostname,
                      Official_endpoint = official c, TrimHostname = True,
                      TLSConfig = tlsOf c\<rparr>])))"

text \<open>
  Modelled from the spec: \<open>lookupV1Endpoints\<close> (registry/service_v1.go is not among the
  sources). Specification, section 4.3, step 4: the legacy V1 endpoints, HTTPS first and
  then HTTP, the HTTP one only for a host classified insecure.
\<close>

definition lookupV1Endpoints :: "serviceConfig \<Rightarrow> string \<Rightarrow> error + APIEndpoint list" where
  "lookupV1Endpoints config hostname =
     (case classify config hostname of
        Inl err \<Rightarrow> Inl err
      | Inr c \<Rightarrow>
          Inr (\<lparr>Mirror = False, URL = ''https://'' @ hostname, Version = APIVersion1,
                AllowNondistributableArtifacts = False, Official_endpoint = official c,
                TrimHostname = True, TLSConfig = tlsOf c\<rparr> #
               (if secure c then []
                else [\<lparr>Mirror = False, URL = ''http://'' @ hostname, Version = APIVersion1,
                       AllowNondistributableArtifacts = False, Official_endpoint = official c,
                       TrimHostname = True, TLSConfig = tlsOf c\<rparr>])))"

text \<open>\<open>lookupEndpoints\<close>, \<open>LookupPullEndpoints\<close> and \<open>LookupPushEndpoints\<close>, from the source.\<close>

definition lookupEndpoints :: "serviceConfig \<Rightarrow> string \<Rightarrow> error + APIEndpoint list" where
  "lookupEndpoints config hostname =
     (case lookupV2Endpoints config hostname of
        Inl err \<Rightarrow> Inl err
      | Inr endpoints \<Rightarrow>
          if V2Only config then Inr endpoints
          else (case lookupV1Endpoints config hostname of
                  Inl err \<Rightarrow> Inl err
                | Inr legacyEndpoints \<Rightarrow> Inr (endpoints @ legacyEndpoints)))"

definition LookupPullEndpoints :: "serviceConfig \<Rightarrow> string \<Rightarrow> error + APIEndpoint list" where
  "LookupPullEndpoints config hostname = lookupEndpoints config hostname"

fun pushLoop :: "APIEndpoint list \<Rightarrow> APIEndpoint list \<Rightarrow> APIEndpoint list" where
  "pushLoop endpoints [] = endpoints"
| "pushLoop endpoints (endpoint # allEndpoints) =
     (if \<not> Mirror endpoint then pushLoop (endpoints @ [endpoint]) allEndpoints
      else pushLoop endpoints allEndpoints)"

definition LookupPushEndpoints :: "serviceConfig \<Rightarrow> string \<Rightarrow> error + APIEndpoint list" where
  "LookupPushEndpoints config hostname =
     (case lookupEndpoints config hostname of
        Inl err \<Rightarrow> Inl err
      | Inr allEndpoints \<Rightarrow> Inr (pushLoop [] allEndpoints))"

text \<open>
  \<open>Auth\<close>. \<open>loginV1\<close> and \<open>loginV2\<close> (registry/auth.go), \<open>IndexServerAddress()\<close> and
  \<open>url.Parse\<close> are not among the sources and are parameters; a login returns the Go triple
  of status, token and error. \<open>authLoop\<close> is the loop over the endpoints with the named result
  \<open>err\<close> as it stands before the iteration; next to the triple that \<open>Auth\<close> returns it gives
  the endpoints on which a login was attempted, in the order of the attempts.
\<close>

record authEnv =
  IndexServerAddress :: string
  url_Parse :: "string \<Rightarrow> error + string"
  loginV1 :: "AuthConfig \<Rightarrow> APIEndpoint \<Rightarrow> string \<Rightarrow> string \<times> string \<times> error option"
  loginV2 :: "AuthConfig \<Rightarrow> APIEndpoint \<Rightarrow> string \<Rightarrow> string \<times> string \<times> error option"

fun authLoop ::
  "authEnv \<Rightarrow> AuthConfig \<Rightarrow> string \<Rightarrow> error option \<Rightarrow> APIEndpoint list
     \<Rightarrow> APIEndpoint list \<times> string \<times> string \<times> error option" where
  "authLoop A authConfig userAgent err [] = ([], '''', '''', err)"
| "authLoop A authConfig userAgent err (endpoint # endpoints) =
     (let login = (if Version endpoint = APIVersion1 then loginV1 A else loginV2 A);
          (status, token, err') = login authConfig endpoint userAgent
      in case err' of
           None \<Rightarrow> ([endpoint], status, token, None)
         | Some (fallbackError fErr) \<Rightarrow>
             (let (tried, r) = authLoop A authConfig userAgent (Some fErr) endpoints
              in (endpoint # tried, r))
         | Some e \<Rightarrow> ([endpoint], '''', '''', Some e))"

definition Auth ::
  "authEnv \<Rightarrow> serviceConfig \<Rightarrow> AuthConfig \<Rightarrow> string
     \<Rightarrow> APIEndpoint list \<times> string \<times> string \<times> error option" where
  "Auth A config authConfig userAgent =
     (let serverAddress =
            (if ServerAddress authConfig = '''' then IndexServerAddress A
             else ServerAddress authConfig)
      in if serverAddress = '''' then ([], '''', '''', Some ErrNoConfiguredRegistry)
         else
           (let serverAddress' =
                  (if \<not> HasPrefix serverAddress ''https://'' \<and> \<not> HasPrefix serverAddress ''http://''
                   then ''https://'' @ serverAddress else serverAddress)
            in case url_Parse A serverAddress' of
                 Inl err \<Rightarrow> ([], '''', '''', Some (InvalidParameter (ErrUnableToParse err)))
               | Inr host \<Rightarrow>
                   (case LookupPushEndpoints config host of
                      Inl err \<Rightarrow> ([], '''', '''', Some (InvalidParameter err))
                    | Inr endpoints \<Rightarrow> authLoop A authConfig userAgent None endpoints)))"

text \<open>
  One attempt of the loop, for stating what the loop does: the login chosen by the
  endpoint's version, and the type assertion \<open>err.(fallbackError)\<close>.
\<close>

definition attempt ::
  "authEnv \<Rightarrow> AuthConfig \<Rightarrow> string \<Rightarrow> APIEndpoint \<Rightarrow> string \<times> string \<times> error option" where
  "attempt A authConfig userAgent endpoint =
     (if Version endpoint = APIVersion1 then loginV1 A authConfig endpoint userAgent
      else loginV2 A authConfig endpoint userAgent)"

definition asFallback :: "error option \<Rightarrow> error option" where
  "asFallback err = (case err of Some (fallbackError fErr) \<Rightarrow> Some fErr | _ \<Rightarrow> None)"

definition fallsBack :: "authEnv \<Rightarrow> AuthConfig \<Rightarrow> string \<Rightarrow> APIEndpoint \<Rightarrow> bool" where
  "fallsBack A authConfig userAgent endpoint =
     (asFallback (snd (snd (attempt A authConfig userAgent endpoint))) \<noteq> None)"

section \<open>References (reference/utils.go and the two normalisation files)\<close>

text \<open>\<open>isValidHostname\<close> of reference/utils.go.\<close>

definition isValidHostname :: "string \<Rightarrow> bool" where
  "isValidHostname hostname =
     (hostname \<noteq> '''' \<and> \<not> Contains hostname ''/'' \<and>
      (Contains hostname ''.'' \<or> Contains hostname '':'' \<or> hostname = ''localhost''))"

text \<open>
  The reference grammar is the distribution library's
  (\<open>github.com/docker/distribution/reference\<close>), which is not part of the repository.
  What the sources call of it is a parameter: a type \<open>'r\<close> of parsed references and the
  functions below. \<open>isNamed\<close>, \<open>Tag_of\<close> and \<open>Digest_of\<close> stand for the type assertions to
  \<open>Named\<close>, \<open>Tagged\<close> and \<open>Digested\<close>. An error of the library is its message, and reaches the
  caller as \<open>Foreign\<close>.
\<close>

record 'r refLib =
  Parse :: "string \<Rightarrow> string + 'r"
  isNamed :: "'r \<Rightarrow> bool"
  String_of :: "'r \<Rightarrow> string"
  Name_of :: "'r \<Rightarrow> string"
  SplitHostname :: "'r \<Rightarrow> string \<times> string"
  WithName :: "string \<Rightarrow> string + 'r"
  WithTag :: "'r \<Rightarrow> string \<Rightarrow> string + 'r"
  WithDigest :: "'r \<Rightarrow> string \<Rightarrow> string + 'r"
  Tag_of :: "'r \<Rightarrow> string option"
  Digest_of :: "'r \<Rightarrow> string option"

definition SubstituteReferenceName :: "'r refLib \<Rightarrow> 'r \<Rightarrow> string \<Rightarrow> error + 'r" where
  "SubstituteReferenceName L ref reposName =
     (case WithName L reposName of
        Inl err \<Rightarrow> Inl (Foreign err)
      | Inr reposNameRef \<Rightarrow>
          (case Tag_of L ref of
             Some tag \<Rightarrow>
               (case WithTag L reposNameRef tag of
                  Inl err \<Rightarrow> Inl (Foreign err)
                | Inr newRef \<Rightarrow> Inr newRef)
           | None \<Rightarrow>
               (case Digest_of L ref of
                  Some digest \<Rightarrow>
                    (case WithDigest L reposNameRef digest of
                       Inl err \<Rightarrow> Inl (Foreign err)
                     | Inr newRef \<Rightarrow> Inr newRef)
                | None \<Rightarrow> Inr reposNameRef)))"

text \<open>
  \<open>SplitReposName\<close> returns the Go triple: the index name, the remote name (\<open>None\<close> for
  \<open>nil\<close>) and the error.
\<close>

definition SplitReposName :: "'r refLib \<Rightarrow> 'r \<Rightarrow> string \<times> 'r option \<times> error option" where
  "SplitReposName L reposName =
     (let (indexName, remoteNameStr) = SplitHostname L reposName in
      if \<not> isValidHostname indexName then ('''', Some reposName, None)
      else (case WithName L remoteNameStr of
              Inl err \<Rightarrow> (indexName, None, Some (Foreign err))
            | Inr remoteName \<Rightarrow> (indexName, Some remoteName, None)))"

definition IsReferenceFullyQualified :: "'r refLib \<Rightarrow> 'r \<Rightarrow> bool" where
  "IsReferenceFullyQualified L reposName = (fst (SplitReposName L reposName) \<noteq> '''')"

text \<open>
  \<open>QualifyUnqualifiedReference\<close>. The call \<open>remoteName.Name()\<close> on a \<open>nil\<close> remote name
  would stop the program; \<open>SplitReposName\<close> never returns one without an error (lemma
  \<open>SplitReposName_remote\<close>), and the branch is there for the model to be complete.
\<close>

definition QualifyUnqualifiedReference :: "'r refLib \<Rightarrow> 'r \<Rightarrow> string \<Rightarrow> error + 'r" where
  "QualifyUnqualifiedReference L ref indexName =
     (if \<not> isValidHostname indexName then Inl (ErrInvalidHostname indexName)
      else
        (let (orig, remoteName, err) = SplitReposName L ref in
         case err of
           Some e \<Rightarrow> Inl e
         | None \<Rightarrow>
             if orig = '''' then
               (case remoteName of
                  None \<Rightarrow> Inl (Panic ''nil pointer dereference'')
                | Some rn \<Rightarrow>
                    SubstituteReferenceName L ref (indexName @ ''/'' @ Name_of L rn))
             else Inr ref))"

text \<open>
  \<open>splitDockerDomain\<close>, first the part the two versions share: the split at the first slash,
  where the leading segment is a domain only if it has a dot or a colon or is
  \<open>localhost\<close>.
\<close>

definition splitAtDomain :: "string \<Rightarrow> string \<times> string" where
  "splitAtDomain name =
     (case IndexRune name CHR ''/'' of
        None \<Rightarrow> ('''', name)
      | Some i \<Rightarrow>
          if \<not> ContainsAny (take i name) ''.:'' \<and> take i name \<noteq> ''localhost''
          then ('''', name)
          else (take i name, drop (i + 1) name))"

text \<open>
  The version beside \<open>ParseNormalizedNamed\<close> loops over \<open>registry.DefaultRegistries\<close>, a
  variable of the registry package that the sources do not declare: the first parameter.
\<close>

fun libraryLoop :: "string list \<Rightarrow> string \<Rightarrow> string \<Rightarrow> string \<times> string" where
  "libraryLoop [] domain remainder = (domain, remainder)"
| "libraryLoop (r # rs) domain remainder =
     (if (domain = r \<or> domain = '''') \<and> \<not> ContainsRune remainder CHR ''/''
      then (domain, ''library/'' @ remainder)
      else libraryLoop rs domain remainder)"

definition splitDockerDomain :: "string list \<Rightarrow> string \<Rightarrow> string \<times> string" where
  "splitDockerDomain DefaultRegistries name =
     (let (domain, remainder) = splitAtDomain name
      in libraryLoop DefaultRegistries domain remainder)"

text \<open>
  The version beside \<open>ParseNamed\<close> tests the constants \<open>registry.DefaultNamespace\<close> and
  \<open>registry.DefaultRegistry\<close>, the first two parameters.
\<close>

definition splitDockerDomain_ns :: "string \<Rightarrow> string \<Rightarrow> string \<Rightarrow> string \<times> string" where
  "splitDockerDomain_ns DefaultNamespace DefaultRegistry name =
     (let (domain, remainder) = splitAtDomain name
      in if (domain = DefaultNamespace \<or> domain = DefaultRegistry \<or> domain = '''') \<and>
            \<not> ContainsRune remainder CHR ''/''
         then (domain, ''library/'' @ remainder)
         else (domain, remainder))"

fun trimLoop :: "string list \<Rightarrow> string \<Rightarrow> string \<Rightarrow> string" where
  "trimLoop [] domain s = s"
| "trimLoop (r # rs) domain s =
     (if domain = r then
        (if Index s (domain @ ''/library'') \<noteq> None
         then Replace1 s (r @ ''/library/'') ''''
         else Replace1 s (r @ ''/'') '''')
      else trimLoop rs domain s)"

definition trimDefaultRegistry :: "string list \<Rightarrow> string \<Rightarrow> string" where
  "trimDefaultRegistry DefaultRegistries s =
     (let (domain, remainder) = splitDockerDomain DefaultRegistries s
      in trimLoop DefaultRegistries domain s)"

text \<open>
  \<open>strings.ToLower\<close> of the Go standard library, which \<open>ParseNormalizedNamed\<close> and
  \<open>ParseNamed\<close> compare the remote name with. The library reads the string as UTF-8, maps
  every code point with \<open>unicode.ToLower\<close> and writes the result as UTF-8
  (\<open>strings.Map\<close>); for a string of ASCII it takes a shortcut with the same result.
  The model follows the library: \<open>DecodeRuneInString\<close> and \<open>EncodeRune\<close> are the two functions
  of \<open>unicode/utf8\<close> (a byte that begins no valid sequence is read as the code point
  \<open>U+FFFD\<close> of width one; a value that is no code point is written as \<open>U+FFFD\<close>), a code
  point is a natural number, and \<open>runes\<close> lists what \<open>for _, c := range s\<close> yields.
\<close>

definition RuneError :: nat where
  "RuneError = 0xFFFD"

definition validRune :: "nat \<Rightarrow> bool" where
  "validRune r = (r < 0xD800 \<or> (0xE000 \<le> r \<and> r \<le> 0x10FFFF))"

definition byte :: "char \<Rightarrow> nat" where
  "byte c = of_char c"

definition inRange :: "nat \<Rightarrow> nat \<Rightarrow> char \<Rightarrow> bool" where
  "inRange lo hi c = (lo \<le> byte c \<and> byte c \<le> hi)"

definition DecodeRuneInString :: "string \<Rightarrow> nat \<times> nat" where
  "DecodeRuneInString s =
     (case s of
        [] \<Rightarrow> (RuneError, 0)
      | c0 # t \<Rightarrow>
          if byte c0 < 0x80 then (byte c0, 1)
          else if 0xC2 \<le> byte c0 \<and> byte c0 \<le> 0xDF then
            (case t of
               c1 # _ \<Rightarrow>
                 if inRange 0x80 0xBF c1
                 then ((byte c0 - 0xC0) * 64 + (byte c1 - 0x80), 2)
                 else (RuneError, 1)
             | _ \<Rightarrow> (RuneError, 1))
          else if 0xE0 \<le> byte c0 \<and> byte c0 \<le> 0xEF then
            (case t of
               c1 # c2 # _ \<Rightarrow>
                 if inRange (if byte c0 = 0xE0 then 0xA0 else 0x80)
                            (if byte c0 = 0xED then 0x9F else 0xBF) c1 \<and>
                    inRange 0x80 0xBF c2
                 then ((byte c0 - 0xE0) * 4096 + (byte c1 - 0x80) * 64 + (byte c2 - 0x80), 3)
                 else (RuneError, 1)
             | _ \<Rightarrow> (RuneError, 1))
          else if 0xF0 \<le> byte c0 \<and> byte c0 \<le> 0xF4 then
            (case t of
               c1 # c2 # c3 # _ \<Rightarrow>
                 if inRange (if byte c0 = 0xF0 then 0x90 else 0x80)
                            (if byte c0 = 0xF4 then 0x8F else 0xBF) c1 \<and>
                    inRange 0x80 0xBF c2 \<and> inRange 0x80 0xBF c3
                 then ((byte c0 - 0xF0) * 262144 + (byte c1 - 0x80) * 4096 +
                       (byte c2 - 0x80) * 64 + (byte c3 - 0x80), 4)
                 else (RuneError, 1)
             | _ \<Rightarrow> (RuneError, 1))
          else (RuneError, 1))"

definition EncodeRune :: "nat \<Rightarrow> string" where
  "EncodeRune r =
     (if r < 0x80 then [char_of r]
      else if r < 0x800 then [char_of (0xC0 + r div 64), char_of (0x80 + r mod 64)]
      else if \<not> validRune r then [char_of (0xEF::nat), char_of (0xBF::nat), char_of (0xBD::nat)]
      else if r < 0x10000 then
        [char_of (0xE0 + r div 4096), char_of (0x80 + (r div 64) mod 64),
         char_of (0x80 + r mod 64)]
      else
        [char_of (0xF0 + r div 262144), char_of (0x80 + (r div 4096) mod 64),
         char_of (0x80 + (r div 64) mod 64), char_of (0x80 + r mod 64)])"

text \<open>
  \<open>strings.Map\<close> for a mapping that drops no code point, as \<open>unicode.ToLower\<close> is: every
  code point read is written mapped.
\<close>

function strings_Map :: "(nat \<Rightarrow> nat) \<Rightarrow> string \<Rightarrow> string" where
  "strings_Map mapping s =
     (if s = [] then []
      else EncodeRune (mapping (fst (DecodeRuneInString s))) @
           strings_Map mapping (drop (snd (DecodeRuneInString s)) s))"
  by pat_completeness auto
termination
proof (relation "measure (\<lambda>(mapping, s). length s)")
  show "wf (measure (\<lambda>(mapping, s). length s))" by simp
next
  fix mapping :: "nat \<Rightarrow> nat" and s :: string
  assume "s \<noteq> []"
  then have "1 \<le> snd (DecodeRuneInString s)"
    by (auto simp: DecodeRuneInString_def split: list.splits)
  with \<open>s \<noteq> []\<close> show "((mapping, drop (snd (DecodeRuneInString s)) s), (mapping, s))
               \<in> measure (\<lambda>(mapping, s). length s)"
    by (cases s) auto
qed

function runes :: "string \<Rightarrow> nat list" where
  "runes s =
     (if s = [] then []
      else fst (DecodeRuneInString s) # runes (drop (snd (DecodeRuneInString s)) s))"
  by pat_completeness auto
termination
proof (relation "measure length")
  show "wf (measure length)" by simp
next
  fix s :: string
  assume "s \<noteq> []"
  then have "1 \<le> snd (DecodeRuneInString s)"
    by (auto simp: DecodeRuneInString_def split: list.splits)
  with \<open>s \<noteq> []\<close> show "(drop (snd (DecodeRuneInString s)) s, s) \<in> measure length"
    by (cases s) auto
qed

declare strings_Map.simps [simp del]

declare runes.simps [simp del]

text \<open>
  \<open>unicode.ToLower\<close>: the letters \<open>A\<close> to \<open>Z\<close> of ASCII are mapped by the function itself;
  beyond ASCII it looks the code point up in the case table of the library's Unicode
  version, which is data of the toolchain and the parameter \<open>caseTable\<close> here (the lower-case
  form of a code point that has one, the code point itself otherwise).
\<close>

definition unicode_ToLower :: "(nat \<Rightarrow> nat) \<Rightarrow> nat \<Rightarrow> nat" where
  "unicode_ToLower caseTable r =
     (if r \<le> 0x7F then (if 0x41 \<le> r \<and> r \<le> 0x5A then r + 0x20 else r)
      else caseTable r)"

definition ToLower :: "(nat \<Rightarrow> nat) \<Rightarrow> string \<Rightarrow> string" where
  "ToLower caseTable s = strings_Map (unicode_ToLower caseTable) s"

text \<open>
  Modelled from the spec: \<open>anchoredIdentifierRegexp\<close> (declared in the distribution
  library, not among the sources). Specification, section 4.1: a bare 64-hex-character
  string; the digits are \<open>0\<close> to \<open>9\<close> and \<open>a\<close> to \<open>f\<close>.
\<close>

definition anchoredIdentifierRegexp_MatchString :: "string \<Rightarrow> bool" where
  "anchoredIdentifierRegexp_MatchString s =
     (length s = 64 \<and> list_all (\<lambda>c. c \<in> set ''0123456789abcdef'') s)"

definition remoteNameOf :: "string \<Rightarrow> string" where
  "remoteNameOf remainder =
     (case IndexRune remainder CHR '':'' of
        Some tagSep \<Rightarrow> take tagSep remainder
      | None \<Rightarrow> remainder)"

text \<open>
  The end that \<open>ParseNormalizedNamed\<close> and \<open>ParseNamed\<close> share: the lower-case test, the
  string handed to \<open>reference.Parse\<close>, and the test that the result is named.
\<close>

definition parseSplit ::
  "'r refLib \<Rightarrow> (nat \<Rightarrow> nat) \<Rightarrow> string \<times> string \<Rightarrow> error + 'r" where
  "parseSplit L caseTable dr =
     (let (domain, remainder) = dr;
          remoteName = remoteNameOf remainder
      in if ToLower caseTable remoteName \<noteq> remoteName then Inl ErrNotLowercase
         else
           (let sn = (if domain = '''' then remainder else domain @ ''/'' @ remainder)
            in case Parse L sn of
                 Inl err \<Rightarrow> Inl (Foreign err)
               | Inr ref \<Rightarrow>
                   if \<not> isNamed L ref then Inl (ErrNoName (String_of L ref))
                   else Inr ref))"

definition ParseNormalizedNamed ::
  "'r refLib \<Rightarrow> (nat \<Rightarrow> nat) \<Rightarrow> string list \<Rightarrow> string \<Rightarrow> error + 'r" where
  "ParseNormalizedNamed L caseTable DefaultRegistries s =
     (if anchoredIdentifierRegexp_MatchString s then Inl (ErrHexIdentifier s)
      else parseSplit L caseTable (splitDockerDomain DefaultRegistries s))"

definition ParseNamed ::
  "'r refLib \<Rightarrow> (nat \<Rightarrow> nat) \<Rightarrow> string \<Rightarrow> string \<Rightarrow> string \<Rightarrow> error + 'r" where
  "ParseNamed L caseTable DefaultNamespace DefaultRegistry s =
     parseSplit L caseTable (splitDockerDomain_ns DefaultNamespace DefaultRegistry s)"

text \<open>
  For stating that a name has an upper-case letter: a byte that is one of the letters \<open>A\<close> to
  \<open>Z\<close> of ASCII, and the value with which \<open>strings.Map\<close> writes a mapped code point.
\<close>

definition isUpper :: "char \<Rightarrow> bool" where
  "isUpper c = (CHR ''A'' \<le> c \<and> c \<le> CHR ''Z'')"

definition writtenRune :: "nat \<Rightarrow> nat" where
  "writtenRune r = (if validRune r then r else RuneError)"

section \<open>Concrete instances\<close>

text \<open>
  Small concrete collaborators and inputs, on which the theorems below are exercised.
\<close>

definition exEndpoint :: "string \<Rightarrow> APIVersion \<Rightarrow> APIEndpoint" where
  "exEndpoint u v =
     \<lparr>Mirror = False, URL = u, Version = v, AllowNondistributableArtifacts = False,
      Official_endpoint = False, TrimHostname = True, TLSConfig = StrictTLS\<rparr>"

definition exAuthConfig :: AuthConfig where
  "exAuthConfig =
     \<lparr>Username = ''u'', Password = ''p'', ServerAddress = ''https://r.io'', IdentityToken = ''''\<rparr>"

definition exAuthEnv :: authEnv where
  "exAuthEnv =
     \<lparr>IndexServerAddress = ''https://index.docker.io/v1/'',
      url_Parse = (\<lambda>s. Inr (drop 8 s)),
      loginV1 = (\<lambda>ac e ua. (''Login Succeeded'', '''', None)),
      loginV2 = (\<lambda>ac e ua.
         if URL e = ''https://old'' then ('''', '''', Some (fallbackError (Foreign ''no v2'')))
         else if URL e = ''https://bad'' then ('''', '''', Some (Foreign ''unauthorized''))
         else (''Login Succeeded'', ''token'', None))\<rparr>"

definition exConfig :: serviceConfig where
  "exConfig =
     \<lparr>V2Only = False, Mirrors = [''https://m1'', ''https://m2''],
      allowNondistributable = (\<lambda>h. False),
      classify = (\<lambda>h. if h = '''' then Inl (Foreign ''bad host'')
                       else Inr \<lparr>secure = (h \<noteq> ''localhost''), official = (h = ''docker.io'')\<rparr>)\<rparr>"

text \<open>
  A search environment with three indexes: \<open>docker.io\<close> answers one result for every name,
  \<open>empty.io\<close> answers without an error and reports no result, and the lookup of any other
  index fails, also that of the index \<open>down.io\<close> that stands in for a missing one. Endpoints
  and clients are the index names.
\<close>

definition exSearchEnv :: "(string, string) searchEnv" where
  "exSearchEnv =
     \<lparr>IndexServerName = ''down.io'',
      validateNoScheme = (\<lambda>t. if Contains t ''://'' then Some (Foreign ''scheme'') else None),
      newIndexInfo = (\<lambda>n. if n = ''docker.io'' \<or> n = ''empty.io''
                           then Inr \<lparr>index_Name = n, Official = (n = ''docker.io''), Secure = True\<rparr>
                           else Inl (Foreign ''no such index'')),
      NewV1Endpoint = (\<lambda>i. Inr (index_Name i)),
      endpoint_client = (\<lambda>e. e),
      v2AuthHTTPClient = (\<lambda>e ac. Inl (fallbackError (Foreign ''no v2''))),
      copyClientFeatures = (\<lambda>c d. c),
      authorizeClient = (\<lambda>c ac e. None),
      SearchRepositories = (\<lambda>c ac e n limit.
         if e = ''empty.io'' then Inr \<lparr>Query = n, NumResults = 0, Results = []\<rparr>
         else Inr \<lparr>Query = n, NumResults = 1,
                   Results = [\<lparr>res_StarCount = 7, res_IsOfficial = True, res_Name = n,
                               res_IsAutomated = False, res_Description = ''d''\<rparr>]\<rparr>)\<rparr>"

text \<open>
  A small reference library: a reference is a name with an optional tag; \<open>Parse\<close> splits
  the tag off at the first colon; \<open>SplitHostname\<close>
  splits the name at its first slash; every name is accepted.
\<close>

definition exRefLib :: "(string \<times> string option) refLib" where
  "exRefLib =
     \<lparr>Parse = (\<lambda>s. case IndexRune s CHR '':'' of
                       None \<Rightarrow> Inr (s, None)
                     | Some i \<Rightarrow> Inr (take i s, Some (drop (Suc i) s))),
      isNamed = (\<lambda>r. True),
      String_of = (\<lambda>r. fst r),
      Name_of = (\<lambda>r. fst r),
      SplitHostname = (\<lambda>r. case IndexRune (fst r) CHR ''/'' of
                              None \<Rightarrow> ('''', fst r)
                            | Some i \<Rightarrow> (take i (fst r), drop (Suc i) (fst r))),
      WithName = (\<lambda>s. if s = '''' then Inl ''invalid reference format'' else Inr (s, None)),
      WithTag = (\<lambda>r t. Inr (fst r, Some t)),
      WithDigest = (\<lambda>r d. Inl ''unsupported''),
      Tag_of = (\<lambda>r. snd r),
      Digest_of = (\<lambda>r. None)\<rparr>"

text \<open>
  A case table with one entry, \<open>U+00C9\<close> (the letter E with an acute accent) with its
  lower-case form \<open>U+00E9\<close>.
\<close>

definition exCaseTable :: "nat \<Rightarrow> nat" where
  "exCaseTable r = (if r = 0xC9 then 0xE9 else r)"

text \<open>
  The reference library above with the split of a name as the grammar of the distribution
  library makes it: the segment before the first slash is the domain only if it is made of
  letters, digits, hyphens, dots and colons; a segment with an underscore is a component of
  the path.
\<close>

definition domainChar :: "char \<Rightarrow> bool" where
  "domainChar c =
     ((CHR ''a'' \<le> c \<and> c \<le> CHR ''z'') \<or> (CHR ''A'' \<le> c \<and> c \<le> CHR ''Z'') \<or>
      (CHR ''0'' \<le> c \<and> c \<le> CHR ''9'') \<or> c = CHR ''-'' \<or> c = CHR ''.'' \<or> c = CHR '':'')"

definition grammarRefLib :: "(string \<times> string option) refLib" where
  "grammarRefLib =
     exRefLib\<lparr>SplitHostname :=
       (\<lambda>r. case IndexRune (fst r) CHR ''/'' of
               None \<Rightarrow> ('''', fst r)
             | Some i \<Rightarrow>
                 if list_all domainChar (take i (fst r))
                 then (take i (fst r), drop (Suc i) (fst r))
                 else ('''', fst r))\<rparr>"

section \<open>The ranking comparator and the sort\<close>

lemma cmp_withIndex_key:
  "getSearchResultsCmpFunc True a b = (key_withIndex a < key_withIndex b)"
  by (auto simp: getSearchResultsCmpFunc_def key_withIndex_def)

lemma cmp_noIndex_key:
  "getSearchResultsCmpFunc False a b = (key_noIndex a < key_noIndex b)"
  by (auto simp: getSearchResultsCmpFunc_def key_noIndex_def)

lemma set_insertBy: "set (insertBy lt x ys) = insert x (set ys)"
  by (induction ys) auto

lemma mset_insertBy: "mset (insertBy lt x ys) = add_mset x (mset ys)"
  by (induction ys) auto

lemma Sort_Cons: "Sort lt (x # xs) = insertBy lt x (Sort lt xs)"
  by (simp add: Sort_def)

lemma mset_Sort: "mset (Sort lt xs) = mset xs"
  by (induction xs) (simp_all add: Sort_Cons mset_insertBy, simp add: Sort_def)

lemma sorted_insertBy:
  fixes k :: "'a \<Rightarrow> 'k::linorder"
  assumes lt: "\<And>a b. lt a b = (k a < k b)" and ys: "sorted (map k ys)"
  shows "sorted (map k (insertBy lt x ys))"
  using ys by (induction ys) (auto simp: lt set_insertBy)

lemma sorted_Sort:
  fixes k :: "'a \<Rightarrow> 'k::linorder"
  assumes lt: "\<And>a b. lt a b = (k a < k b)"
  shows "sorted (map k (Sort lt xs))"
proof (induction xs)
  case Nil
  show ?case by (simp add: Sort_def)
next
  case (Cons x xs)
  then show ?case by (simp add: Sort_Cons sorted_insertBy [OF lt])
qed

text \<open>
  Claim C1. The comparator that \<open>Search\<close> sorts with is the lexicographic order on
  (index name, star count descending, registry name, name, description) when \<open>noIndex\<close> is
  false, and the one on (registry name, star count descending, name, description), without
  the index name, when \<open>noIndex\<close> is true. Sorting with it rearranges the results so that
  these keys ascend. Two results of the indexes \<open>b\<close> with one star and \<open>a\<close> with five stars
  come out with the one of \<open>a\<close> first when \<open>noIndex\<close> is false, whatever their other fields.
\<close>

theorem ranking_is_lexicographic:
  "getSearchResultsCmpFunc (\<not> False) x y = (key_withIndex x < key_withIndex y) \<and>
   getSearchResultsCmpFunc (\<not> True) x y = (key_noIndex x < key_noIndex y) \<and>
   sorted (map key_withIndex (rankResults QueryRegistries False results)) \<and>
   mset (rankResults QueryRegistries False results) = mset results \<and>
   sorted (map key_noIndex (Sort (getSearchResultsCmpFunc (\<not> True)) results)) \<and>
   mset (Sort (getSearchResultsCmpFunc (\<not> True)) results) = mset results \<and>
   rankResults QueryRegistries False
     [\<lparr>IndexName = ''b'', RegistryName = r1, StarCount = 1, Name = n1,
       IsOfficial = o1, IsAutomated = a1, Description = d1\<rparr>,
      \<lparr>IndexName = ''a'', RegistryName = r2, StarCount = 5, Name = n2,
       IsOfficial = o2, IsAutomated = a2, Description = d2\<rparr>] =
     [\<lparr>IndexName = ''a'', RegistryName = r2, StarCount = 5, Name = n2,
       IsOfficial = o2, IsAutomated = a2, Description = d2\<rparr>,
      \<lparr>IndexName = ''b'', RegistryName = r1, StarCount = 1, Name = n1,
       IsOfficial = o1, IsAutomated = a1, Description = d1\<rparr>]"
proof -
  have ex: "rankResults QueryRegistries False
     [\<lparr>IndexName = ''b'', RegistryName = r1, StarCount = 1, Name = n1,
       IsOfficial = o1, IsAutomated = a1, Description = d1\<rparr>,
      \<lparr>IndexName = ''a'', RegistryName = r2, StarCount = 5, Name = n2,
       IsOfficial = o2, IsAutomated = a2, Description = d2\<rparr>] =
     [\<lparr>IndexName = ''a'', RegistryName = r2, StarCount = 5, Name = n2,
       IsOfficial = o2, IsAutomated = a2, Description = d2\<rparr>,
      \<lparr>IndexName = ''b'', RegistryName = r1, StarCount = 1, Name = n1,
       IsOfficial = o1, IsAutomated = a1, Description = d1\<rparr>]"
    by (simp add: rankResults_def Sort_def getSearchResultsCmpFunc_def)
  have s1: "sorted (map key_withIndex (rankResults QueryRegistries False results))"
    by (simp add: rankResults_def sorted_Sort [OF cmp_withIndex_key])
  have s2: "sorted (map key_noIndex (Sort (getSearchResultsCmpFunc (\<not> True)) results))"
    by (simp add: sorted_Sort [OF cmp_noIndex_key])
  have m1: "mset (rankResults QueryRegistries False results) = mset results"
    by (simp add: rankResults_def mset_Sort)
  show ?thesis
    using ex s1 s2 m1 by (simp add: cmp_withIndex_key cmp_noIndex_key mset_Sort)
qed

section \<open>The removal of duplicates\<close>

lemma removeLoop_collapseRuns:
  "res \<noteq> [] \<Longrightarrow> prevIndex = length res - 1 \<Longrightarrow>
   removeLoop qr prevIndex res data = butlast res @ collapseRuns qr (last res) data"
proof (induction data arbitrary: res prevIndex)
  case Nil
  then show ?case by simp
next
  case (Cons c data)
  have nth: "res ! (length res - 1) = last res"
    using Cons.prems by (simp add: last_conv_nth)
  have upd: "res[length res - 1 := c] = butlast res @ [c]"
    using Cons.prems(1) by (metis append_butlast_last_id length_butlast list_update_length)
  show ?case
  proof (cases "RegistryName (last res) = RegistryName c \<and> Name (last res) = Name c")
    case True
    show ?thesis
    proof (cases "prio qr (IndexName (last res)) > prio qr (IndexName c) \<or>
       (prio qr (IndexName (last res)) = prio qr (IndexName c) \<and>
        StarCount (last res) < StarCount c)")
      case rep: True
      have k: "keepOf qr (last res) c = c"
        using rep by (auto simp: keepOf_def)
      have "removeLoop qr prevIndex res (c # data) =
            removeLoop qr prevIndex (butlast res @ [c]) data"
        using True rep Cons.prems nth upd by (auto simp add: Let_def)
      also have "\<dots> = butlast (butlast res @ [c]) @
                       collapseRuns qr (last (butlast res @ [c])) data"
        by (rule Cons.IH) (use Cons.prems in simp_all)
      also have "\<dots> = butlast res @ collapseRuns qr (last res) (c # data)"
        using True k by simp
      finally show ?thesis .
    next
      case keep: False
      have k: "keepOf qr (last res) c = last res"
        using keep by (auto simp: keepOf_def)
      have "removeLoop qr prevIndex res (c # data) = removeLoop qr prevIndex res data"
        using True keep Cons.prems nth by (auto simp add: Let_def)
      also have "\<dots> = butlast res @ collapseRuns qr (last res) data"
        by (rule Cons.IH) (use Cons.prems in simp_all)
      also have "\<dots> = butlast res @ collapseRuns qr (last res) (c # data)"
        using True k by simp
      finally show ?thesis .
    qed
  next
    case False
    have "removeLoop qr prevIndex res (c # data) =
          removeLoop qr (prevIndex + 1) (res @ [c]) data"
      using False Cons.prems nth by (auto simp add: Let_def)
    also have "\<dots> = butlast (res @ [c]) @ collapseRuns qr (last (res @ [c])) data"
      by (rule Cons.IH) (use Cons.prems in \<open>simp_all add: Suc_leI\<close>)
    also have "\<dots> = res @ collapseRuns qr c data"
      by simp
    also have "\<dots> = butlast res @ collapseRuns qr (last res) (c # data)"
      using False Cons.prems(1) by (auto simp del: removeLoop.simps)
    finally show ?thesis .
  qed
qed

lemma removeSearchDuplicates_dedupSpec:
  "removeSearchDuplicates qr data = dedupSpec qr data"
  by (cases data)
     (simp_all add: removeSearchDuplicates_def dedupSpec_def removeLoop_collapseRuns)

text \<open>
  Claim C2. \<open>Search\<close> removes duplicates only when \<open>noIndex\<close> is true: with \<open>noIndex\<close> false
  its result is the sorted slice as it is. \<open>removeSearchDuplicates\<close> is the scan that
  collapses every run of consecutive entries with the same registry name and name into one
  entry (\<open>dedupSpec\<close>), where of the entry kept so far and the next one of the run it keeps
  the one whose index name comes earlier in the configured list of the registries to query
  and, at equal positions, the one with more stars (\<open>keepOf\<close>). With the list \<open>p0\<close>, \<open>p1\<close> the
  two entries for the same repository from \<open>p0\<close> with 3 stars and from \<open>p1\<close> with 9 stars
  leave the entry of \<open>p0\<close>, scanned in that order and also as \<open>Search\<close> ranks them.
\<close>

theorem dedup_only_noIndex_priority_then_stars:
  "rankResults QueryRegistries False results =
     Sort (getSearchResultsCmpFunc True) results \<and>
   rankResults QueryRegistries True results =
     removeSearchDuplicates QueryRegistries (Sort (getSearchResultsCmpFunc False) results) \<and>
   removeSearchDuplicates QueryRegistries data = dedupSpec QueryRegistries data \<and>
   removeSearchDuplicates [''p0'', ''p1'']
     [\<lparr>IndexName = ''p0'', RegistryName = ''r'', StarCount = 3, Name = ''x'',
       IsOfficial = o1, IsAutomated = a1, Description = d1\<rparr>,
      \<lparr>IndexName = ''p1'', RegistryName = ''r'', StarCount = 9, Name = ''x'',
       IsOfficial = o2, IsAutomated = a2, Description = d2\<rparr>] =
     [\<lparr>IndexName = ''p0'', RegistryName = ''r'', StarCount = 3, Name = ''x'',
       IsOfficial = o1, IsAutomated = a1, Description = d1\<rparr>] \<and>
   rankResults [''p0'', ''p1''] True
     [\<lparr>IndexName = ''p0'', RegistryName = ''r'', StarCount = 3, Name = ''x'',
       IsOfficial = o1, IsAutomated = a1, Description = d1\<rparr>,
      \<lparr>IndexName = ''p1'', RegistryName = ''r'', StarCount = 9, Name = ''x'',
       IsOfficial = o2, IsAutomated = a2, Description = d2\<rparr>] =
     [\<lparr>IndexName = ''p0'', RegistryName = ''r'', StarCount = 3, Name = ''x'',
       IsOfficial = o1, IsAutomated = a1, Description = d1\<rparr>]"
  by (simp add: rankResults_def removeSearchDuplicates_dedupSpec dedupSpec_def keepOf_def
        Sort_def getSearchResultsCmpFunc_def)

section \<open>The login loop of Auth\<close>

lemma authLoop_step_fallback:
  assumes "attempt A ac ua e = (s, t, Some (fallbackError f))"
  shows "authLoop A ac ua err (e # es) =
         (e # fst (authLoop A ac ua (Some f) es), snd (authLoop A ac ua (Some f) es))"
  using assms by (simp add: attempt_def Let_def split: prod.splits if_splits)

lemma authLoop_step_success:
  assumes "attempt A ac ua e = (s, t, None)"
  shows "authLoop A ac ua err (e # es) = ([e], s, t, None)"
  using assms by (simp add: attempt_def Let_def split: prod.splits if_splits)

lemma authLoop_step_fatal:
  assumes "attempt A ac ua e = (s, t, Some x)" and "asFallback (Some x) = None"
  shows "authLoop A ac ua err (e # es) = ([e], '''', '''', Some x)"
  using assms
  by (cases x)
     (simp_all add: attempt_def asFallback_def Let_def split: prod.splits if_splits)

lemma fallsBack_attempt:
  "fallsBack A ac ua e \<Longrightarrow> \<exists>s t f. attempt A ac ua e = (s, t, Some (fallbackError f))"
  by (cases "attempt A ac ua e")
     (auto simp: fallsBack_def asFallback_def split: option.splits error.splits)

text \<open>
  Endpoints that all answer with a \<open>fallbackError\<close> are passed one after the other; the rest
  of the loop starts with some error in \<open>err\<close> once one has been passed.
\<close>

lemma authLoop_skip:
  assumes "\<forall>e\<in>set pre. fallsBack A ac ua e"
  shows "\<exists>err'. authLoop A ac ua err (pre @ es) =
           (pre @ fst (authLoop A ac ua err' es), snd (authLoop A ac ua err' es))"
  using assms
proof (induction pre arbitrary: err)
  case Nil
  show ?case by (rule exI [of _ err]) simp
next
  case (Cons e pre)
  from Cons.prems obtain s t f where a: "attempt A ac ua e = (s, t, Some (fallbackError f))"
    using fallsBack_attempt by fastforce
  from Cons.IH [of "Some f"] Cons.prems obtain err' where
    "authLoop A ac ua (Some f) (pre @ es) =
       (pre @ fst (authLoop A ac ua err' es), snd (authLoop A ac ua err' es))"
    by auto
  then show ?case
    using authLoop_step_fallback [OF a, of err "pre @ es"] by auto
qed

lemma Auth_resolved:
  assumes "ServerAddress ac \<noteq> ''''"
    and "HasPrefix (ServerAddress ac) ''https://'' \<or> HasPrefix (ServerAddress ac) ''http://''"
    and "url_Parse A (ServerAddress ac) = Inr host"
    and "LookupPushEndpoints config host = Inr endpoints"
  shows "Auth A config ac ua = authLoop A ac ua None endpoints"
  using assms by (auto simp: Auth_def Let_def)

text \<open>
  Claim C3. \<open>Auth\<close> runs the loop over the endpoints that \<open>LookupPushEndpoints\<close> resolved,
  in their order, with \<open>loginV1\<close> for an endpoint of version 1 and \<open>loginV2\<close> for any other.
  After endpoints that all answered with a fallback-class error: a successful login is
  returned at once (status and token of that login, no error, and no later endpoint is
  tried); an error that is not of the fallback class is returned at once, with empty status
  and token, and no later endpoint is tried; and when the last endpoint also answers with a
  fallback-class error, the error wrapped in it is returned.
\<close>

theorem auth_loop_first_success_or_fatal:
  assumes "\<forall>e\<in>set pre. fallsBack A ac ua e"
  shows
    "attempt A ac ua e =
       (if Version e = APIVersion1 then loginV1 A ac e ua else loginV2 A ac e ua) \<and>
     (attempt A ac ua e = (s, t, None) \<longrightarrow>
        authLoop A ac ua err (pre @ e # post) = (pre @ [e], s, t, None)) \<and>
     (attempt A ac ua e = (s, t, Some x) \<and> asFallback (Some x) = None \<longrightarrow>
        authLoop A ac ua err (pre @ e # post) = (pre @ [e], '''', '''', Some x)) \<and>
     (attempt A ac ua e = (s, t, Some (fallbackError f)) \<longrightarrow>
        authLoop A ac ua err (pre @ [e]) = (pre @ [e], '''', '''', Some f)) \<and>
     (ServerAddress ac \<noteq> '''' \<and>
      (HasPrefix (ServerAddress ac) ''https://'' \<or> HasPrefix (ServerAddress ac) ''http://'') \<and>
      url_Parse A (ServerAddress ac) = Inr host \<and>
      LookupPushEndpoints config host = Inr (pre @ e # post) \<longrightarrow>
        Auth A config ac ua = authLoop A ac ua None (pre @ e # post))"
proof -
  have skip: "\<And>es err. \<exists>err'. authLoop A ac ua err (pre @ es) =
      (pre @ fst (authLoop A ac ua err' es), snd (authLoop A ac ua err' es))"
    using authLoop_skip [OF assms] by blast
  have c1: "authLoop A ac ua err (pre @ e # post) = (pre @ [e], s, t, None)"
    if "attempt A ac ua e = (s, t, None)"
    using skip [of err "e # post"] authLoop_step_success [OF that] by auto
  have c2: "authLoop A ac ua err (pre @ e # post) = (pre @ [e], '''', '''', Some x)"
    if "attempt A ac ua e = (s, t, Some x)" and "asFallback (Some x) = None"
    using skip [of err "e # post"] authLoop_step_fatal [OF that] by auto
  have c3: "authLoop A ac ua err (pre @ [e]) = (pre @ [e], '''', '''', Some f)"
    if "attempt A ac ua e = (s, t, Some (fallbackError f))"
    using skip [of err "[e]"] authLoop_step_fallback [OF that, of _ "[]"] by auto
  have c4: "Auth A config ac ua = authLoop A ac ua None (pre @ e # post)"
    if "ServerAddress ac \<noteq> ''''"
      and "HasPrefix (ServerAddress ac) ''https://'' \<or> HasPrefix (ServerAddress ac) ''http://''"
      and "url_Parse A (ServerAddress ac) = Inr host"
      and "LookupPushEndpoints config host = Inr (pre @ e # post)"
    using Auth_resolved [OF that] .
  show ?thesis
    using c1 c2 c3 c4 by (simp add: attempt_def)
qed

theorem auth_loop_first_success_or_fatal_witness:
  "authLoop exAuthEnv exAuthConfig ''ua'' None
     [exEndpoint ''https://old'' APIVersion2, exEndpoint ''https://old'' APIVersion1,
      exEndpoint ''http://old'' APIVersion1] =
     ([exEndpoint ''https://old'' APIVersion2, exEndpoint ''https://old'' APIVersion1],
      ''Login Succeeded'', '''', None) \<and>
   authLoop exAuthEnv exAuthConfig ''ua'' None
     [exEndpoint ''https://old'' APIVersion2, exEndpoint ''https://bad'' APIVersion2,
      exEndpoint ''https://bad'' APIVersion1] =
     ([exEndpoint ''https://old'' APIVersion2, exEndpoint ''https://bad'' APIVersion2],
      '''', '''', Some (Foreign ''unauthorized'')) \<and>
   authLoop exAuthEnv exAuthConfig ''ua'' None
     [exEndpoint ''https://old'' APIVersion2, exEndpoint ''https://old'' APIVersion2] =
     ([exEndpoint ''https://old'' APIVersion2, exEndpoint ''https://old'' APIVersion2],
      '''', '''', Some (Foreign ''no v2'')) \<and>
   Auth exAuthEnv exConfig exAuthConfig ''ua'' =
     ([exEndpoint ''https://r.io'' APIVersion2], ''Login Succeeded'', ''token'', None)"
proof -
  have pre: "\<forall>e\<in>set [exEndpoint ''https://old'' APIVersion2]. fallsBack exAuthEnv exAuthConfig ''ua'' e"
    by (simp add: fallsBack_def attempt_def asFallback_def exAuthEnv_def exEndpoint_def)
  have nil: "\<forall>e\<in>set []. fallsBack exAuthEnv exAuthConfig ''ua'' e"
    by simp
  note t = auth_loop_first_success_or_fatal
  show ?thesis
    using t [OF pre, of "exEndpoint ''https://old'' APIVersion1" "''Login Succeeded''" "''''"
              None "[exEndpoint ''http://old'' APIVersion1]"]
          t [OF pre, of "exEndpoint ''https://bad'' APIVersion2" "''''" "''''"
              None "[exEndpoint ''https://bad'' APIVersion1]" "Foreign ''unauthorized''"]
          t [OF pre, of "exEndpoint ''https://old'' APIVersion2" "''''" "''''"
              None "[]" _ "Foreign ''no v2''"]
          t [OF nil, of "exEndpoint ''https://r.io'' APIVersion2" "''Login Succeeded''" "''token''"
              None "[exEndpoint ''https://r.io'' APIVersion1]" _ _ "''r.io''" exConfig]
    by (simp add: attempt_def asFallback_def exAuthEnv_def exEndpoint_def exAuthConfig_def
          exConfig_def LookupPushEndpoints_def lookupEndpoints_def lookupV2Endpoints_def
          lookupV1Endpoints_def tlsOf_def)
qed

section \<open>The control flow of Search\<close>

lemma fst_searchTerm: "fst (searchTerm E t limit ac outs) = taskError E limit ac t"
  by (simp add: searchTerm_def taskError_def split: sum.splits prod.splits)

lemma snd_searchTerm: "snd (searchTerm E t limit ac outs) = outs @ contribution E limit ac t"
  by (simp add: searchTerm_def contribution_def split: sum.splits prod.splits)

lemma searchTerm_eq:
  "searchTerm E t limit ac outs = (taskError E limit ac t, outs @ contribution E limit ac t)"
  by (metis fst_searchTerm snd_searchTerm prod.collapse)

lemma receiveAll_eq:
  "receiveAll E limit ac tasks (rs, err, ok) =
     (rs @ concat (map (contribution E limit ac) tasks),
      (if tasks = [] then err else taskError E limit ac (last tasks)),
      ok \<or> (\<exists>t\<in>set tasks. taskError E limit ac t = None))"
proof (induction tasks arbitrary: rs err ok)
  case Nil
  show ?case by simp
next
  case (Cons t tasks)
  show ?case
    by (simp add: searchTerm_eq Cons.IH) auto
qed

lemma Search_qualified:
  assumes "isReposSearchTermFullyQualified t"
  shows "Search E qr order t limit ac noIndex =
           ([t],
            (if taskError E limit ac t = None
             then rankResults qr noIndex (contribution E limit ac t) else []),
            taskError E limit ac t)"
  using assms
  by (cases "taskError E limit ac t") (simp_all add: Search_def searchTerm_eq)

lemma Search_fanout:
  assumes "\<not> isReposSearchTermFullyQualified t" and "qr \<noteq> []"
  shows "Search E qr order t limit ac noIndex =
           (let tasks = map (taskTerm qr t) order in
            if \<exists>x\<in>set tasks. taskError E limit ac x = None
            then (tasks, rankResults qr noIndex (concat (map (contribution E limit ac) tasks)), None)
            else (tasks, [], if tasks = [] then None else taskError E limit ac (last tasks)))"
proof -
  have "\<not> length qr < 1" using assms(2) by (cases qr) simp_all
  then show ?thesis
    using assms(1) by (auto simp add: Search_def receiveAll_eq Let_def)
qed

lemma perm_order:
  assumes "mset order = mset [0..<n]"
  shows "set order = {0..<n}"
  using assms by (metis mset_eq_setD set_upt)

lemma Contains_single: "Contains s [x] = (x \<in> set s)"
  by (induction s) (auto simp: Contains_def)

lemma IndexRune_Some:
  "IndexRune s r = Some i \<Longrightarrow> r \<notin> set (take i s) \<and> i < length s \<and> s ! i = r"
proof (induction s arbitrary: i)
  case Nil
  then show ?case by simp
next
  case (Cons c s)
  show ?case
  proof (cases "c = r")
    case True
    with Cons.prems show ?thesis by simp
  next
    case False
    with Cons.prems obtain j where j: "IndexRune s r = Some j" and i: "i = Suc j"
      by auto
    from Cons.IH [OF j] False i show ?thesis by simp
  qed
qed

lemma qualified_iff:
  "isReposSearchTermFullyQualified t =
     (\<exists>i. IndexRune t CHR ''/'' = Some i \<and> isValidHostname (take i t))"
proof (cases "IndexRune t CHR ''/''")
  case None
  then show ?thesis
    by (simp add: isReposSearchTermFullyQualified_def splitReposSearchTerm_def SplitN2_def)
next
  case (Some i)
  from IndexRune_Some [OF Some] have ns: "CHR ''/'' \<notin> set (take i t)" by simp
  have ne: "take i t \<noteq> ''''"
    if "CHR ''.'' \<in> set (take i t) \<or> CHR '':'' \<in> set (take i t) \<or> take i t = ''localhost''"
  proof
    assume e: "take i t = ''''"
    with that show False by simp
  qed
  show ?thesis
    using Some ns ne
    by (auto simp: isReposSearchTermFullyQualified_def splitReposSearchTerm_def SplitN2_def
          isValidHostname_def Contains_single Let_def)
qed

text \<open>
  Claim C4. A term is fully qualified when it has a slash and the segment before its first
  slash is a valid index host name. A fully qualified term makes \<open>Search\<close> call \<open>searchTerm\<close> once, with the term,
  and return the error of that call as it is. An unqualified term with an empty list of
  registries to query fails with the error "No configured repository to search.".
  Otherwise, in whatever order the tasks finish, one task has run for each configured
  registry; \<open>Search\<close> returns no error if and only if some task ended without an error, and
  when every task failed it returns no result and the error received last.
\<close>

theorem search_control_flow:
  "isReposSearchTermFullyQualified t =
     (\<exists>i. IndexRune t CHR ''/'' = Some i \<and> isValidHostname (take i t)) \<and>
   (isReposSearchTermFullyQualified t \<longrightarrow>
      fst (Search E qr order t limit ac noIndex) = [t] \<and>
      snd (snd (Search E qr order t limit ac noIndex)) = taskError E limit ac t) \<and>
   (\<not> isReposSearchTermFullyQualified t \<and> length qr < 1 \<longrightarrow>
      Search E qr order t limit ac noIndex = ([], [], Some ErrNoConfiguredRepository)) \<and>
   (\<not> isReposSearchTermFullyQualified t \<and> \<not> length qr < 1 \<and>
    mset order = mset [0..<length qr] \<longrightarrow>
      mset (fst (Search E qr order t limit ac noIndex)) =
        mset (map (taskTerm qr t) [0..<length qr]) \<and>
      (snd (snd (Search E qr order t limit ac noIndex)) = None) =
        (\<exists>i<length qr. taskError E limit ac (taskTerm qr t i) = None) \<and>
      ((\<forall>i<length qr. taskError E limit ac (taskTerm qr t i) \<noteq> None) \<longrightarrow>
         Search E qr order t limit ac noIndex =
           (map (taskTerm qr t) order, [],
            taskError E limit ac (taskTerm qr t (last order)))))"
proof (intro conjI impI)
  show "isReposSearchTermFullyQualified t =
     (\<exists>i. IndexRune t CHR ''/'' = Some i \<and> isValidHostname (take i t))"
    by (rule qualified_iff)
next
  assume "isReposSearchTermFullyQualified t"
  then show "fst (Search E qr order t limit ac noIndex) = [t]"
    and "snd (snd (Search E qr order t limit ac noIndex)) = taskError E limit ac t"
    by (simp_all add: Search_qualified)
next
  assume "\<not> isReposSearchTermFullyQualified t \<and> length qr < 1"
  then show "Search E qr order t limit ac noIndex = ([], [], Some ErrNoConfiguredRepository)"
    by (simp add: Search_def)
next
  assume a: "\<not> isReposSearchTermFullyQualified t \<and> \<not> length qr < 1 \<and>
    mset order = mset [0..<length qr]"
  then have qr: "qr \<noteq> []" and nq: "\<not> isReposSearchTermFullyQualified t"
    and perm: "mset order = mset [0..<length qr]" by auto
  have so: "set order = {0..<length qr}" by (rule perm_order [OF perm])
  have ne: "order \<noteq> []" using so qr by auto
  have ex: "(\<exists>x\<in>set (map (taskTerm qr t) order). taskError E limit ac x = None) =
            (\<exists>i<length qr. taskError E limit ac (taskTerm qr t i) = None)"
    using so by auto
  note S = Search_fanout [OF nq qr, of E order limit ac noIndex]
  show "mset (fst (Search E qr order t limit ac noIndex)) =
        mset (map (taskTerm qr t) [0..<length qr])"
    using perm by (simp add: S Let_def)
  show "(snd (snd (Search E qr order t limit ac noIndex)) = None) =
        (\<exists>i<length qr. taskError E limit ac (taskTerm qr t i) = None)"
  proof (cases "\<exists>i<length qr. taskError E limit ac (taskTerm qr t i) = None")
    case True
    then show ?thesis using ex by (simp add: S Let_def)
  next
    case False
    have "last order \<in> set order" using ne by simp
    then have "last order < length qr" using so by auto
    with False have "taskError E limit ac (taskTerm qr t (last order)) \<noteq> None" by auto
    with False show ?thesis using ex ne by (auto simp add: S Let_def last_map)
  qed
  show "Search E qr order t limit ac noIndex =
           (map (taskTerm qr t) order, [],
            taskError E limit ac (taskTerm qr t (last order)))"
    if "\<forall>i<length qr. taskError E limit ac (taskTerm qr t i) \<noteq> None"
    using that ex ne by (auto simp add: S Let_def last_map)
qed

theorem search_control_flow_witness:
  "fst (Search exSearchEnv [''docker.io''] [0] ''lost.io/ubuntu'' 25 None False) =
     [''lost.io/ubuntu''] \<and>
   snd (snd (Search exSearchEnv [''docker.io''] [0] ''lost.io/ubuntu'' 25 None False)) =
     Some (Foreign ''no such index'') \<and>
   Search exSearchEnv [] [] ''ubuntu'' 25 None False = ([], [], Some ErrNoConfiguredRepository) \<and>
   snd (snd (Search exSearchEnv [''down.io'', ''docker.io''] [1, 0] ''ubuntu'' 25 None False)) =
     None \<and>
   Search exSearchEnv [''down.io'', ''lost.io''] [1, 0] ''ubuntu'' 25 None False =
     ([''lost.io/ubuntu'', ''ubuntu''], [], Some (Foreign ''no such index''))"
proof -
  have q1: "isReposSearchTermFullyQualified ''lost.io/ubuntu''"
    by (simp add: isReposSearchTermFullyQualified_def splitReposSearchTerm_def SplitN2_def
          Contains_def)
  have q2: "\<not> isReposSearchTermFullyQualified ''ubuntu''"
    by (simp add: isReposSearchTermFullyQualified_def splitReposSearchTerm_def SplitN2_def
          Contains_def)
  have p: "mset [1, 0] = mset [0..<length [a, b]]" for a b :: string
    by (simp add: upt_rec)
  have e0: "taskError exSearchEnv 25 None ''ubuntu'' = Some (Foreign ''no such index'')"
    by (simp add: taskError_def searchTerm_def searchQuery_def exSearchEnv_def
          splitReposSearchTerm_def SplitN2_def Contains_def)
  have e1: "taskError exSearchEnv 25 None ''lost.io/ubuntu'' = Some (Foreign ''no such index'')"
    by (simp add: taskError_def searchTerm_def searchQuery_def exSearchEnv_def
          splitReposSearchTerm_def SplitN2_def Contains_def)
  have e2: "taskError exSearchEnv 25 None ''docker.io/ubuntu'' = None"
    by (simp add: taskError_def searchTerm_def searchQuery_def exSearchEnv_def
          splitReposSearchTerm_def SplitN2_def Contains_def searchClient_def v2Client_def Let_def)
  have all: "(\<forall>i<length [''down.io'', ''lost.io''].
       taskError exSearchEnv 25 None (taskTerm [''down.io'', ''lost.io''] ''ubuntu'' i) \<noteq> None)"
    using e0 e1 by (auto simp: taskTerm_def less_Suc_eq)
  have some: "\<exists>i<length [''down.io'', ''docker.io''].
       taskError exSearchEnv 25 None (taskTerm [''down.io'', ''docker.io''] ''ubuntu'' i) = None"
    using e2 by (intro exI [of _ 1]) (simp add: taskTerm_def)
  note t = search_control_flow
  show ?thesis
    using t [of "''lost.io/ubuntu''" exSearchEnv "[''docker.io'']" "[0]" 25 None False]
          t [of "''ubuntu''" exSearchEnv "[]" "[]" 25 None False]
          t [of "''ubuntu''" exSearchEnv "[''down.io'', ''docker.io'']" "[1, 0]" 25 None False]
          t [of "''ubuntu''" exSearchEnv "[''down.io'', ''lost.io'']" "[1, 0]" 25 None False]
          q1 q2 p e0 e1 all some
    by (simp add: taskTerm_def)
qed

section \<open>A registry without results\<close>

lemma receiveAll_drop_empty:
  assumes "contribution E limit ac t = []"
  shows "fst (receiveAll E limit ac (pre @ t # post) (rs, err, ok)) =
         fst (receiveAll E limit ac (pre @ post) (rs, err, ok))"
  using assms by (simp add: receiveAll_eq)

lemma zero_results_task:
  assumes "searchQuery E t limit ac = Inr (index, results)" and "NumResults results < 1"
  shows "taskError E limit ac t = None" and "contribution E limit ac t = []"
  using assms by (simp_all add: taskError_def contribution_def searchTerm_def)

text \<open>
  Claim C10. When the query of a task reaches the provider and the provider answers without
  an error but reports fewer than one result, \<open>searchTerm\<close> returns no error and leaves the
  shared slice as it found it. \<open>Search\<close> therefore does not fail because of such a registry:
  for a fully qualified term it returns the empty result without an error, and among the
  tasks of an unqualified term one such task is enough for \<open>Search\<close> to return without an
  error; the slice that the tasks have accumulated is the one they would have accumulated
  without that task.
\<close>

theorem zero_results_is_success_without_entries:
  assumes "searchQuery E t limit ac = Inr (index, results)" and "NumResults results < 1"
  shows
    "searchTerm E t limit ac outs = (None, outs) \<and>
     (isReposSearchTermFullyQualified t \<longrightarrow>
        Search E qr order t limit ac noIndex = ([t], [], None)) \<and>
     (\<not> isReposSearchTermFullyQualified t' \<and> \<not> length qr < 1 \<and> i \<in> set order \<and>
      taskTerm qr t' i = t \<longrightarrow>
        snd (snd (Search E qr order t' limit ac noIndex)) = None) \<and>
     fst (receiveAll E limit ac (pre @ t # post) (rs, err, ok)) =
       fst (receiveAll E limit ac (pre @ post) (rs, err, ok))"
proof -
  note z = zero_results_task [OF assms]
  have a: "searchTerm E t limit ac outs = (None, outs)"
    using z by (simp add: searchTerm_eq)
  have b: "Search E qr order t limit ac noIndex = ([t], [], None)"
    if "isReposSearchTermFullyQualified t"
    using z
    by (simp add: Search_qualified [OF that] rankResults_def Sort_def removeSearchDuplicates_def)
  have c: "snd (snd (Search E qr order t' limit ac noIndex)) = None"
    if "\<not> isReposSearchTermFullyQualified t'" and "\<not> length qr < 1" and "i \<in> set order"
      and "taskTerm qr t' i = t"
  proof -
    have "qr \<noteq> []" using that(2) by auto
    moreover have "\<exists>x\<in>set (map (taskTerm qr t') order). taskError E limit ac x = None"
      using that(3,4) z(1) by auto
    ultimately show ?thesis
      using Search_fanout [OF that(1), of qr E order limit ac noIndex] by (simp add: Let_def)
  qed
  show ?thesis
    using a b c receiveAll_drop_empty [OF z(2)] by blast
qed

theorem zero_results_is_success_without_entries_witness:
  "searchTerm exSearchEnv ''empty.io/ubuntu'' 25 None [] = (None, []) \<and>
   Search exSearchEnv [''down.io''] [0] ''empty.io/ubuntu'' 25 None True =
     ([''empty.io/ubuntu''], [], None) \<and>
   snd (snd (Search exSearchEnv [''down.io'', ''empty.io''] [1, 0] ''ubuntu'' 25 None True)) =
     None"
proof -
  have q: "searchQuery exSearchEnv ''empty.io/ubuntu'' 25 None =
       Inr (\<lparr>index_Name = ''empty.io'', Official = False, Secure = True\<rparr>,
            \<lparr>Query = ''ubuntu'', NumResults = 0, Results = []\<rparr>)"
    by (simp add: searchQuery_def exSearchEnv_def splitReposSearchTerm_def SplitN2_def
          Contains_def searchClient_def v2Client_def Let_def)
  have n: "NumResults \<lparr>Query = ''ubuntu'', NumResults = 0, Results = []\<rparr> < 1"
    by simp
  have q1: "isReposSearchTermFullyQualified ''empty.io/ubuntu''"
    by (simp add: isReposSearchTermFullyQualified_def splitReposSearchTerm_def SplitN2_def
          Contains_def)
  have q2: "\<not> isReposSearchTermFullyQualified ''ubuntu''"
    by (simp add: isReposSearchTermFullyQualified_def splitReposSearchTerm_def SplitN2_def
          Contains_def)
  note t = zero_results_is_success_without_entries [OF q n]
  show ?thesis
    using t [of "[]" "[''down.io'']" "[0]" True "''ubuntu''" 1]
          t [of "[]" "[''down.io'', ''empty.io'']" "[1, 0]" True "''ubuntu''" 1] q1 q2
    by (simp add: taskTerm_def)
qed

section \<open>The endpoint lists\<close>

lemma pushLoop_filter: "pushLoop acc es = acc @ filter (\<lambda>e. \<not> Mirror e) es"
  by (induction es arbitrary: acc) simp_all

lemma mirrorEndpoints_V2:
  "mirrorEndpoints config ms = Inr es \<Longrightarrow> \<forall>e\<in>set es. Version e = APIVersion2"
  by (induction ms arbitrary: es) (auto split: sum.splits)

lemma lookupV2Endpoints_V2:
  assumes "lookupV2Endpoints config h = Inr es"
  shows "\<forall>e\<in>set es. Version e = APIVersion2"
proof -
  from assms obtain ms e0 where ms: "mirrorEndpoints config (Mirrors config) = Inr ms"
    and es: "es = ms @ [e0]" and e0: "Version e0 = APIVersion2"
    by (auto simp: lookupV2Endpoints_def split: sum.splits)
  from mirrorEndpoints_V2 [OF ms] es e0 show ?thesis by auto
qed

lemma lookupV1Endpoints_V1:
  "lookupV1Endpoints config h = Inr es \<Longrightarrow> \<forall>e\<in>set es. Version e = APIVersion1"
  by (auto simp: lookupV1Endpoints_def split: sum.splits if_splits)

lemma lookupEndpoints_split:
  assumes "lookupEndpoints config h = Inr es"
  shows "\<exists>v2 v1. es = v2 @ v1 \<and> (\<forall>e\<in>set v2. Version e = APIVersion2) \<and>
           (\<forall>e\<in>set v1. Version e = APIVersion1) \<and> (V2Only config \<longrightarrow> v1 = [])"
proof -
  from assms obtain v2 where v2: "lookupV2Endpoints config h = Inr v2"
    by (auto simp: lookupEndpoints_def split: sum.splits)
  note a2 = lookupV2Endpoints_V2 [OF v2]
  show ?thesis
  proof (cases "V2Only config")
    case True
    with assms v2 have es: "es = v2 @ []" by (simp add: lookupEndpoints_def)
    have e: "\<forall>e\<in>set []. Version e = APIVersion1" by simp
    have n: "V2Only config \<longrightarrow> ([]::APIEndpoint list) = []" by simp
    show ?thesis
      using es a2 e n by (intro exI [of _ v2] exI [of _ "[]"] conjI)
  next
    case False
    with assms v2 obtain v1 where v1: "lookupV1Endpoints config h = Inr v1"
      and es: "es = v2 @ v1"
      by (auto simp: lookupEndpoints_def split: sum.splits)
    note a1 = lookupV1Endpoints_V1 [OF v1]
    have n: "V2Only config \<longrightarrow> v1 = []" using False by simp
    show ?thesis
      using es a2 a1 n by (intro exI [of _ v2] exI [of _ v1] conjI)
  qed
qed

lemma split_precedes:
  assumes "es = v2 @ v1" and "\<forall>e\<in>set v2. Version e = APIVersion2"
    and "\<forall>e\<in>set v1. Version e = APIVersion1"
    and "i < length es" and "j < length es"
    and "Version (es ! i) = APIVersion2" and "Version (es ! j) = APIVersion1"
  shows "i < j"
proof -
  have "i < length v2"
  proof (rule ccontr)
    assume "\<not> i < length v2"
    then have "es ! i \<in> set v1" using assms(1,4) by (auto simp: nth_append)
    with assms(3,6) show False by auto
  qed
  moreover have "\<not> j < length v2"
  proof
    assume "j < length v2"
    then have "es ! j \<in> set v2" using assms(1) by (auto simp: nth_append)
    with assms(2,7) show False by auto
  qed
  ultimately show ?thesis by simp
qed

text \<open>
  Claim C6. For every host name: no endpoint that \<open>LookupPushEndpoints\<close> returns is a
  mirror; in the list that \<open>LookupPullEndpoints\<close> returns and in the one that
  \<open>LookupPushEndpoints\<close> returns, an endpoint of version 2 stands before every endpoint of
  version 1; and with \<open>V2Only\<close> set both lists have endpoints of version 2 only.
\<close>

lemma LookupPushEndpoints_split:
  assumes "LookupPushEndpoints config hostname = Inr endpoints"
  shows "\<exists>v2 v1. endpoints = v2 @ v1 \<and> (\<forall>e\<in>set v2. Version e = APIVersion2) \<and>
           (\<forall>e\<in>set v1. Version e = APIVersion1) \<and> (V2Only config \<longrightarrow> v1 = [])"
    and "\<forall>e\<in>set endpoints. Mirror e = False"
proof -
  from assms obtain all where all: "lookupEndpoints config hostname = Inr all"
    and es: "endpoints = filter (\<lambda>e. \<not> Mirror e) all"
    by (auto simp: LookupPushEndpoints_def pushLoop_filter split: sum.splits)
  from lookupEndpoints_split [OF all] obtain v2 v1 where
    s: "all = v2 @ v1" "\<forall>e\<in>set v2. Version e = APIVersion2"
       "\<forall>e\<in>set v1. Version e = APIVersion1" "V2Only config \<longrightarrow> v1 = []"
    by (elim exE conjE)
  let ?f = "filter (\<lambda>e. \<not> Mirror e)"
  have 1: "endpoints = ?f v2 @ ?f v1" using es s(1) by simp
  have 2: "\<forall>e\<in>set (?f v2). Version e = APIVersion2" using s(2) by simp
  have 3: "\<forall>e\<in>set (?f v1). Version e = APIVersion1" using s(3) by simp
  have 4: "V2Only config \<longrightarrow> ?f v1 = []" using s(4) by simp
  show "\<exists>v2 v1. endpoints = v2 @ v1 \<and> (\<forall>e\<in>set v2. Version e = APIVersion2) \<and>
           (\<forall>e\<in>set v1. Version e = APIVersion1) \<and> (V2Only config \<longrightarrow> v1 = [])"
    using 1 2 3 4 by (intro exI [of _ "?f v2"] exI [of _ "?f v1"] conjI)
  show "\<forall>e\<in>set endpoints. Mirror e = False" using es by simp
qed

lemma either_split:
  assumes "LookupPushEndpoints config hostname = Inr endpoints \<or>
           LookupPullEndpoints config hostname = Inr endpoints"
  shows "\<exists>v2 v1. endpoints = v2 @ v1 \<and> (\<forall>e\<in>set v2. Version e = APIVersion2) \<and>
           (\<forall>e\<in>set v1. Version e = APIVersion1) \<and> (V2Only config \<longrightarrow> v1 = [])"
  using assms
proof
  assume "LookupPushEndpoints config hostname = Inr endpoints"
  then show ?thesis by (rule LookupPushEndpoints_split(1))
next
  assume "LookupPullEndpoints config hostname = Inr endpoints"
  then have "lookupEndpoints config hostname = Inr endpoints"
    by (simp add: LookupPullEndpoints_def)
  then show ?thesis by (rule lookupEndpoints_split)
qed

theorem push_without_mirrors_v2_before_v1:
  "(LookupPushEndpoints config hostname = Inr endpoints \<longrightarrow>
      (\<forall>e\<in>set endpoints. Mirror e = False)) \<and>
   (LookupPushEndpoints config hostname = Inr endpoints \<or>
    LookupPullEndpoints config hostname = Inr endpoints \<longrightarrow>
      (\<forall>i j. i < length endpoints \<and> j < length endpoints \<and>
             Version (endpoints ! i) = APIVersion2 \<and> Version (endpoints ! j) = APIVersion1
             \<longrightarrow> i < j) \<and>
      (V2Only config \<longrightarrow> (\<forall>e\<in>set endpoints. Version e \<noteq> APIVersion1)))"
proof (intro conjI impI allI)
  assume "LookupPushEndpoints config hostname = Inr endpoints"
  then show "\<forall>e\<in>set endpoints. Mirror e = False"
    by (rule LookupPushEndpoints_split(2))
next
  fix i j
  assume a: "LookupPushEndpoints config hostname = Inr endpoints \<or>
             LookupPullEndpoints config hostname = Inr endpoints"
    and b: "i < length endpoints \<and> j < length endpoints \<and>
            Version (endpoints ! i) = APIVersion2 \<and> Version (endpoints ! j) = APIVersion1"
  from either_split [OF a] obtain v2 v1 where
    s: "endpoints = v2 @ v1" "\<forall>e\<in>set v2. Version e = APIVersion2"
       "\<forall>e\<in>set v1. Version e = APIVersion1"
    by (elim exE conjE)
  from b have b1: "i < length endpoints" and b2: "j < length endpoints"
    and b3: "Version (endpoints ! i) = APIVersion2"
    and b4: "Version (endpoints ! j) = APIVersion1" by simp_all
  show "i < j" by (rule split_precedes [OF s b1 b2 b3 b4])
next
  assume a: "LookupPushEndpoints config hostname = Inr endpoints \<or>
             LookupPullEndpoints config hostname = Inr endpoints"
    and v: "V2Only config"
  from either_split [OF a] obtain v2 v1 where
    s: "endpoints = v2 @ v1" "\<forall>e\<in>set v2. Version e = APIVersion2"
       "V2Only config \<longrightarrow> v1 = []"
    by (elim exE conjE)
  from s v have "\<forall>e\<in>set endpoints. Version e = APIVersion2" by simp
  then show "\<forall>e\<in>set endpoints. Version e \<noteq> APIVersion1" by simp
qed

theorem push_without_mirrors_v2_before_v1_witness:
  "LookupPushEndpoints exConfig ''localhost'' =
     Inr [exEndpoint ''https://localhost'' APIVersion2\<lparr>TLSConfig := InsecureSkipVerify\<rparr>,
          exEndpoint ''https://localhost'' APIVersion1\<lparr>TLSConfig := InsecureSkipVerify\<rparr>,
          exEndpoint ''http://localhost'' APIVersion1\<lparr>TLSConfig := InsecureSkipVerify\<rparr>] \<and>
   map Mirror (projr (LookupPushEndpoints exConfig ''localhost'')) = [False, False, False] \<and>
   map Version (projr (LookupPullEndpoints exConfig ''localhost'')) =
     [APIVersion2, APIVersion2, APIVersion2, APIVersion1, APIVersion1] \<and>
   map Version (projr (LookupPullEndpoints (exConfig\<lparr>V2Only := True\<rparr>) ''localhost'')) =
     [APIVersion2, APIVersion2, APIVersion2]"
proof -
  have push: "LookupPushEndpoints exConfig ''localhost'' =
     Inr [exEndpoint ''https://localhost'' APIVersion2\<lparr>TLSConfig := InsecureSkipVerify\<rparr>,
          exEndpoint ''https://localhost'' APIVersion1\<lparr>TLSConfig := InsecureSkipVerify\<rparr>,
          exEndpoint ''http://localhost'' APIVersion1\<lparr>TLSConfig := InsecureSkipVerify\<rparr>]"
    by (simp add: exConfig_def exEndpoint_def LookupPushEndpoints_def lookupEndpoints_def
          lookupV2Endpoints_def lookupV1Endpoints_def tlsOf_def)
  have pull: "map Version (projr (LookupPullEndpoints exConfig ''localhost'')) =
     [APIVersion2, APIVersion2, APIVersion2, APIVersion1, APIVersion1]"
    by (simp add: exConfig_def LookupPullEndpoints_def lookupEndpoints_def
          lookupV2Endpoints_def lookupV1Endpoints_def tlsOf_def)
  have pull2: "map Version (projr (LookupPullEndpoints (exConfig\<lparr>V2Only := True\<rparr>) ''localhost'')) =
     [APIVersion2, APIVersion2, APIVersion2]"
    by (simp add: exConfig_def LookupPullEndpoints_def lookupEndpoints_def
          lookupV2Endpoints_def lookupV1Endpoints_def tlsOf_def)
  have mirrors: "\<forall>e\<in>set (projr (LookupPushEndpoints exConfig ''localhost'')). Mirror e = False"
    using push_without_mirrors_v2_before_v1
            [of exConfig "''localhost''" "projr (LookupPushEndpoints exConfig ''localhost'')"]
          push
    by simp
  show ?thesis
    using push pull pull2 mirrors by simp
qed

section \<open>Trimming the default registry\<close>

text \<open>
  Claim C5. The claim is that a string whose domain is a default registry \<open>r\<close> loses the
  leading \<open>r/library/\<close> when its path begins with \<open>library/\<close> and the leading \<open>r/\<close>
  otherwise. \<open>trimDefaultRegistry\<close> looks for \<open>r/library\<close>, without the closing slash and
  anywhere in the string, and then replaces \<open>r/library/\<close>, with it: for
  \<open>docker.io/librarything/app\<close> the first is found and the second is not, and the string comes
  back with its registry, whereas \<open>docker.io/other/app\<close> loses it.
\<close>

theorem trimDefaultRegistry_keeps_registry_before_library_prefix:
  "splitDockerDomain [''docker.io''] ''docker.io/librarything/app'' =
     (''docker.io'', ''librarything/app'') \<and>
   trimDefaultRegistry [''docker.io''] ''docker.io/librarything/app'' =
     ''docker.io/librarything/app'' \<and>
   trimDefaultRegistry [''docker.io''] ''docker.io/other/app'' = ''other/app'' \<and>
   trimDefaultRegistry [''docker.io''] ''docker.io/library/ubuntu'' = ''ubuntu''"
  by (simp add: trimDefaultRegistry_def splitDockerDomain_def splitAtDomain_def Replace1_def
        ContainsRune_def)

section \<open>Lower case\<close>

text \<open>
  Reading back what \<open>EncodeRune\<close> wrote gives the code point and its width; hence a
  string that \<open>strings.Map\<close> leaves as it is has only code points that the mapping
  leaves as they are.
\<close>

lemma byte_char_of: "n < 256 \<Longrightarrow> byte (char_of n) = n"
  by (simp add: byte_def)

lemma div_bounds:
  fixes r :: nat
  assumes "lo * q \<le> r" "r < hi * q" "0 < q"
  shows "r div q < hi" "lo \<le> r div q"
  using assms by (simp_all add: less_mult_imp_div_less less_eq_div_iff_mult_less_eq)

lemma dec2:
  assumes d: "(d::nat) < 32" "2 \<le> d" and m: "(m::nat) < 64"
  shows "DecodeRuneInString (char_of (0xC0 + d) # char_of (0x80 + m) # t) = (d * 64 + m, 2)"
proof -
  have b0: "byte (char_of (0xC0 + d)) = 0xC0 + d"
    using d by (intro byte_char_of) simp
  have b1: "byte (char_of (0x80 + m)) = 0x80 + m"
    using m by (intro byte_char_of) simp
  show ?thesis
    unfolding DecodeRuneInString_def list.case b0 b1 inRange_def
    using d m by simp
qed

lemma dec3:
  assumes a: "(a::nat) < 16" and m1: "(m1::nat) < 64" and m2: "(m2::nat) < 64"
    and lo: "a = 0 \<longrightarrow> 32 \<le> m1" and hi: "a = 13 \<longrightarrow> m1 < 32"
  shows "DecodeRuneInString (char_of (0xE0 + a) # char_of (0x80 + m1) # char_of (0x80 + m2) # t) =
           (a * 4096 + m1 * 64 + m2, 3)"
proof -
  have b0: "byte (char_of (0xE0 + a)) = 0xE0 + a"
    using a by (intro byte_char_of) simp
  have b1: "byte (char_of (0x80 + m1)) = 0x80 + m1"
    using m1 by (intro byte_char_of) simp
  have b2: "byte (char_of (0x80 + m2)) = 0x80 + m2"
    using m2 by (intro byte_char_of) simp
  show ?thesis
    unfolding DecodeRuneInString_def list.case b0 b1 b2 inRange_def
    using a m1 m2 lo hi by auto
qed

lemma dec4:
  assumes a: "(a::nat) < 5" and m1: "(m1::nat) < 64" and m2: "(m2::nat) < 64"
    and m3: "(m3::nat) < 64"
    and lo: "a = 0 \<longrightarrow> 16 \<le> m1" and hi: "a = 4 \<longrightarrow> m1 < 16"
  shows "DecodeRuneInString (char_of (0xF0 + a) # char_of (0x80 + m1) # char_of (0x80 + m2) #
            char_of (0x80 + m3) # t) =
           (a * 262144 + m1 * 4096 + m2 * 64 + m3, 4)"
proof -
  have b0: "byte (char_of (0xF0 + a)) = 0xF0 + a"
    using a by (intro byte_char_of) simp
  have b1: "byte (char_of (0x80 + m1)) = 0x80 + m1"
    using m1 by (intro byte_char_of) simp
  have b2: "byte (char_of (0x80 + m2)) = 0x80 + m2"
    using m2 by (intro byte_char_of) simp
  have b3: "byte (char_of (0x80 + m3)) = 0x80 + m3"
    using m3 by (intro byte_char_of) simp
  show ?thesis
    unfolding DecodeRuneInString_def list.case b0 b1 b2 b3 inRange_def
    using a m1 m2 m3 lo hi by auto
qed

lemma dec_enc2:
  assumes "0x80 \<le> r" "r < (0x800::nat)"
  shows "DecodeRuneInString (EncodeRune r @ t) = (r, 2)"
proof -
  have e: "EncodeRune r = [char_of (0xC0 + r div 64), char_of (0x80 + r mod 64)]"
    using assms by (simp add: EncodeRune_def)
  have d: "r div 64 < 32" "2 \<le> r div 64"
    using div_bounds [of 2 64 r 32] assms by simp_all
  have m: "r mod 64 < 64" by simp
  have "DecodeRuneInString (EncodeRune r @ t) =
        DecodeRuneInString (char_of (0xC0 + r div 64) # char_of (0x80 + r mod 64) # t)"
    by (simp only: e append.simps)
  also have "\<dots> = (r div 64 * 64 + r mod 64, 2)"
    by (rule dec2 [OF d m])
  also have "r div 64 * 64 + r mod 64 = r"
    by (rule div_mult_mod_eq)
  finally show ?thesis .
qed

lemma split3: "(r::nat) div 4096 * 4096 + (r div 64) mod 64 * 64 + r mod 64 = r"
proof -
  have a: "r div 4096 = (r div 64) div 64" by (simp add: div_mult2_eq)
  have b: "(r div 64) div 64 * 64 + (r div 64) mod 64 = r div 64" by (rule div_mult_mod_eq)
  have "r div 4096 * 4096 + (r div 64) mod 64 * 64 = ((r div 64) div 64 * 64 + (r div 64) mod 64) * 64"
    unfolding a by (simp only: add_mult_distrib mult.assoc)
  also have "\<dots> = r div 64 * 64" by (simp only: b)
  finally have "r div 4096 * 4096 + (r div 64) mod 64 * 64 + r mod 64 = r div 64 * 64 + r mod 64"
    by simp
  also have "\<dots> = r" by (rule div_mult_mod_eq)
  finally show ?thesis .
qed

lemma split4:
  "(r::nat) div 262144 * 262144 + (r div 4096) mod 64 * 4096 + (r div 64) mod 64 * 64 + r mod 64 = r"
proof -
  have a: "r div 262144 = (r div 4096) div 64" by (simp add: div_mult2_eq)
  have b: "(r div 4096) div 64 * 64 + (r div 4096) mod 64 = r div 4096" by (rule div_mult_mod_eq)
  have "r div 262144 * 262144 + (r div 4096) mod 64 * 4096 =
        ((r div 4096) div 64 * 64 + (r div 4096) mod 64) * 4096"
    unfolding a by (simp only: add_mult_distrib mult.assoc)
  also have "\<dots> = r div 4096 * 4096" by (simp only: b)
  finally have "r div 262144 * 262144 + (r div 4096) mod 64 * 4096 + (r div 64) mod 64 * 64 + r mod 64 =
        r div 4096 * 4096 + (r div 64) mod 64 * 64 + r mod 64"
    by simp
  also have "\<dots> = r" by (rule split3)
  finally show ?thesis .
qed

lemma div_eq_upper:
  fixes r :: nat
  assumes "r div q = a" "0 < q"
  shows "r < (a + 1) * q" "a * q \<le> r"
proof -
  have "r div q < a + 1" using assms(1) by simp
  then show "r < (a + 1) * q" using assms(2) by (simp only: div_less_iff_less_mult)
  have "a \<le> r div q" using assms(1) by simp
  then show "a * q \<le> r" using assms(2) by (simp only: less_eq_div_iff_mult_less_eq)
qed

lemma dec_enc3:
  assumes "0x800 \<le> r" "r < (0x10000::nat)" "validRune r"
  shows "DecodeRuneInString (EncodeRune r @ t) = (r, 3)"
proof -
  have e: "EncodeRune r =
      [char_of (0xE0 + r div 4096), char_of (0x80 + (r div 64) mod 64), char_of (0x80 + r mod 64)]"
    using assms by (simp add: EncodeRune_def)
  have a: "r div 4096 < 16"
    using div_bounds(1) [of 0 4096 r 16] assms by simp
  have q: "(r div 64) div 64 = r div 4096" by (simp add: div_mult2_eq)
  have b: "r div 4096 * 64 + (r div 64) mod 64 = r div 64"
    using div_mult_mod_eq [of "r div 64" 64] q by simp
  have ql: "32 \<le> r div 64"
    using div_bounds(2) [of 32 64 r 1024] assms by simp
  have lo: "r div 4096 = 0 \<longrightarrow> 32 \<le> (r div 64) mod 64"
    using b ql by auto
  have hi: "r div 4096 = 13 \<longrightarrow> (r div 64) mod 64 < 32"
  proof
    assume h: "r div 4096 = 13"
    have "r < 57344" using div_eq_upper(1) [OF h] by simp
    with assms(3) have "r < 55296" by (simp add: validRune_def)
    then have "r div 64 < 864" using div_bounds(1) [of 0 64 r 864] by simp
    with b h show "(r div 64) mod 64 < 32" by simp
  qed
  have m1: "(r div 64) mod 64 < 64" and m2: "r mod 64 < 64" by simp_all
  have "DecodeRuneInString (EncodeRune r @ t) =
        DecodeRuneInString (char_of (0xE0 + r div 4096) # char_of (0x80 + (r div 64) mod 64) #
          char_of (0x80 + r mod 64) # t)"
    by (simp only: e append.simps)
  also have "\<dots> = (r div 4096 * 4096 + (r div 64) mod 64 * 64 + r mod 64, 3)"
    by (rule dec3 [OF a m1 m2 lo hi])
  also have "r div 4096 * 4096 + (r div 64) mod 64 * 64 + r mod 64 = r"
    by (rule split3)
  finally show ?thesis .
qed

lemma dec_enc4:
  assumes "0x10000 \<le> r" "validRune r"
  shows "DecodeRuneInString (EncodeRune r @ t) = (r, 4)"
proof -
  have u: "r < 1114112" using assms by (simp add: validRune_def)
  have e: "EncodeRune r =
      [char_of (0xF0 + r div 262144), char_of (0x80 + (r div 4096) mod 64),
       char_of (0x80 + (r div 64) mod 64), char_of (0x80 + r mod 64)]"
    using assms by (simp add: EncodeRune_def)
  have a: "r div 262144 < 5"
    using div_bounds(1) [of 0 262144 r 5] u by simp
  have q: "(r div 4096) div 64 = r div 262144" by (simp add: div_mult2_eq)
  have b: "r div 262144 * 64 + (r div 4096) mod 64 = r div 4096"
    using div_mult_mod_eq [of "r div 4096" 64] q by simp
  have ql: "16 \<le> r div 4096"
    using div_bounds(2) [of 16 4096 r 1114112] assms(1) u by simp
  have qu: "r div 4096 < 272"
    using div_bounds(1) [of 0 4096 r 272] u by simp
  have lo: "r div 262144 = 0 \<longrightarrow> 16 \<le> (r div 4096) mod 64"
    using b ql by auto
  have hi: "r div 262144 = 4 \<longrightarrow> (r div 4096) mod 64 < 16"
    using b qu by auto
  have m1: "(r div 4096) mod 64 < 64" and m2: "(r div 64) mod 64 < 64" and m3: "r mod 64 < 64"
    by simp_all
  have "DecodeRuneInString (EncodeRune r @ t) =
        DecodeRuneInString (char_of (0xF0 + r div 262144) # char_of (0x80 + (r div 4096) mod 64) #
          char_of (0x80 + (r div 64) mod 64) # char_of (0x80 + r mod 64) # t)"
    by (simp only: e append.simps)
  also have "\<dots> = (r div 262144 * 262144 + (r div 4096) mod 64 * 4096 +
                     (r div 64) mod 64 * 64 + r mod 64, 4)"
    by (rule dec4 [OF a m1 m2 m3 lo hi])
  also have "r div 262144 * 262144 + (r div 4096) mod 64 * 4096 +
             (r div 64) mod 64 * 64 + r mod 64 = r"
    by (rule split4)
  finally show ?thesis .
qed

lemma dec_enc1: "r < 0x80 \<Longrightarrow> DecodeRuneInString (EncodeRune r @ t) = (r, 1)"
  by (simp add: DecodeRuneInString_def EncodeRune_def byte_def)

lemma length_EncodeRune:
  "length (EncodeRune r) =
     (if r < 0x80 then 1 else if r < 0x800 then 2
      else if \<not> validRune r then 3 else if r < 0x10000 then 3 else 4)"
  by (simp add: EncodeRune_def)

lemma Decode_Encode:
  assumes "validRune r"
  shows "DecodeRuneInString (EncodeRune r @ t) = (r, length (EncodeRune r))"
proof -
  consider "r < 0x80" | "0x80 \<le> r" "r < 0x800" | "0x800 \<le> r" "r < 0x10000" | "0x10000 \<le> r"
    by linarith
  then show ?thesis
  proof cases
    case 1
    then show ?thesis using dec_enc1 [of r t] by (simp add: length_EncodeRune)
  next
    case 2
    then show ?thesis using dec_enc2 [of r t] by (simp add: length_EncodeRune)
  next
    case 3
    then show ?thesis using dec_enc3 [of r t] assms by (simp add: length_EncodeRune)
  next
    case 4
    then show ?thesis using dec_enc4 [of r t] assms by (simp add: length_EncodeRune)
  qed
qed

lemma DecodeRuneInString_width:
  "s \<noteq> [] \<Longrightarrow> 1 \<le> snd (DecodeRuneInString s) \<and> snd (DecodeRuneInString s) \<le> length s"
  by (auto simp: DecodeRuneInString_def split: list.splits)

lemma invalid_EncodeRune:
  "\<not> validRune r \<Longrightarrow> EncodeRune r = EncodeRune RuneError"
  by (simp add: EncodeRune_def validRune_def RuneError_def)

lemma valid_RuneError: "validRune RuneError"
  by (simp add: validRune_def RuneError_def)

lemma Decode_Encode_written:
  "DecodeRuneInString (EncodeRune r @ t) = (writtenRune r, length (EncodeRune r))"
proof (cases "validRune r")
  case True
  then show ?thesis by (simp add: writtenRune_def Decode_Encode)
next
  case False
  then show ?thesis
    using Decode_Encode [OF valid_RuneError, of t] by (simp add: writtenRune_def invalid_EncodeRune)
qed

lemma strings_Map_fixed:
  "strings_Map m s = s \<Longrightarrow> \<forall>c\<in>set (runes s). writtenRune (m c) = c"
proof (induction m s rule: strings_Map.induct)
  case (1 m s)
  show ?case
  proof (cases "s = []")
    case True
    then show ?thesis by (simp add: runes.simps)
  next
    case False
    let ?c = "fst (DecodeRuneInString s)" and ?w = "snd (DecodeRuneInString s)"
    let ?E = "EncodeRune (m ?c)" and ?M = "strings_Map m (drop ?w s)"
    have eq: "?E @ ?M = s" using "1.prems" False by (subst (asm) strings_Map.simps) simp
    have d: "DecodeRuneInString (?E @ ?M) = (writtenRune (m ?c), length ?E)"
      by (rule Decode_Encode_written)
    have c: "?c = writtenRune (m ?c)"
      using arg_cong [OF d, of fst] by (simp only: eq fst_conv)
    have w: "?w = length ?E"
      using arg_cong [OF d, of snd] by (simp only: eq snd_conv)
    have "drop ?w s = drop (length ?E) (?E @ ?M)" by (simp only: eq w [symmetric])
    then have "?M = drop ?w s" by simp
    with "1.IH" [OF False] have r: "\<forall>c\<in>set (runes (drop ?w s)). writtenRune (m c) = c" by simp
    have "runes s = ?c # runes (drop ?w s)" using False by (subst runes.simps) simp
    with c r show ?thesis by simp
  qed
qed

lemma isUpper_byte: "isUpper c = (65 \<le> byte c \<and> byte c \<le> 90)"
  by (simp add: isUpper_def byte_def less_eq_char_def)

lemma Decode_ascii: "byte c < 0x80 \<Longrightarrow> DecodeRuneInString (c # t) = (byte c, 1)"
  by (simp add: DecodeRuneInString_def)

lemma strings_Map_ascii_Cons:
  "byte c < 0x80 \<Longrightarrow> strings_Map m (c # t) = EncodeRune (m (byte c)) @ strings_Map m t"
  by (subst strings_Map.simps) (simp add: Decode_ascii)

lemma Decode_lead2:
  assumes "0xC2 \<le> byte c0" "byte c0 \<le> 0xDF"
  shows "DecodeRuneInString (c0 # t) =
     (case t of
        c1 # _ \<Rightarrow>
          if inRange 0x80 0xBF c1
          then ((byte c0 - 0xC0) * 64 + (byte c1 - 0x80), 2)
          else (RuneError, 1)
      | _ \<Rightarrow> (RuneError, 1))"
  using assms by (simp add: DecodeRuneInString_def)

lemma Decode_lead3:
  assumes "0xE0 \<le> byte c0" "byte c0 \<le> 0xEF"
  shows "DecodeRuneInString (c0 # t) =
     (case t of
        c1 # c2 # _ \<Rightarrow>
          if inRange (if byte c0 = 0xE0 then 0xA0 else 0x80)
                     (if byte c0 = 0xED then 0x9F else 0xBF) c1 \<and>
             inRange 0x80 0xBF c2
          then ((byte c0 - 0xE0) * 4096 + (byte c1 - 0x80) * 64 + (byte c2 - 0x80), 3)
          else (RuneError, 1)
      | _ \<Rightarrow> (RuneError, 1))"
  using assms by (simp add: DecodeRuneInString_def)

lemma Decode_lead4:
  assumes "0xF0 \<le> byte c0" "byte c0 \<le> 0xF4"
  shows "DecodeRuneInString (c0 # t) =
     (case t of
        c1 # c2 # c3 # _ \<Rightarrow>
          if inRange (if byte c0 = 0xF0 then 0x90 else 0x80)
                     (if byte c0 = 0xF4 then 0x8F else 0xBF) c1 \<and>
             inRange 0x80 0xBF c2 \<and> inRange 0x80 0xBF c3
          then ((byte c0 - 0xF0) * 262144 + (byte c1 - 0x80) * 4096 +
                (byte c2 - 0x80) * 64 + (byte c3 - 0x80), 4)
          else (RuneError, 1)
      | _ \<Rightarrow> (RuneError, 1))"
  using assms by (simp add: DecodeRuneInString_def)

lemma Decode_other:
  assumes "0x80 \<le> byte c0" "byte c0 < 0xC2 \<or> 0xF4 < byte c0"
  shows "DecodeRuneInString (c0 # t) = (RuneError, 1)"
  using assms by (auto simp add: DecodeRuneInString_def)

lemma Decode_consumed_high:
  assumes "0x80 \<le> byte c0"
  shows "\<forall>x\<in>set (take (snd (DecodeRuneInString (c0 # t))) (c0 # t)). 0x80 \<le> byte x"
proof -
  consider "byte c0 < 0xC2 \<or> 0xF4 < byte c0"
    | "0xC2 \<le> byte c0" "byte c0 \<le> 0xDF"
    | "0xE0 \<le> byte c0" "byte c0 \<le> 0xEF"
    | "0xF0 \<le> byte c0" "byte c0 \<le> 0xF4"
    by linarith
  then show ?thesis
  proof cases
    case 1
    then show ?thesis using assms by (simp add: Decode_other)
  next
    case 2
    show ?thesis
      using assms by (cases t) (simp_all add: Decode_lead2 [OF 2] inRange_def)
  next
    case 3
    show ?thesis
    proof (cases t)
      case Nil
      then show ?thesis using assms by (simp add: Decode_lead3 [OF 3])
    next
      case (Cons c1 t1)
      then show ?thesis
        using assms by (cases t1) (simp_all add: Decode_lead3 [OF 3] inRange_def)
    qed
  next
    case 4
    show ?thesis
    proof (cases t)
      case Nil
      then show ?thesis using assms by (simp add: Decode_lead4 [OF 4])
    next
      case c1: (Cons c1 t1)
      show ?thesis
      proof (cases t1)
        case Nil
        then show ?thesis using assms c1 by (simp add: Decode_lead4 [OF 4])
      next
        case (Cons c2 t2)
        then show ?thesis
          using assms c1 by (cases t2) (simp_all add: Decode_lead4 [OF 4] inRange_def)
      qed
    qed
  qed
qed

lemma Decode_ascii_take:
  assumes "c \<in> set (take (snd (DecodeRuneInString s)) s)" and "byte c < 0x80"
  shows "fst (DecodeRuneInString s) = byte c"
proof (cases s)
  case Nil
  with assms(1) show ?thesis by simp
next
  case (Cons c0 t)
  show ?thesis
  proof (cases "byte c0 < 0x80")
    case True
    with assms(1) Cons show ?thesis by (simp add: Decode_ascii)
  next
    case False
    then have "\<forall>x\<in>set (take (snd (DecodeRuneInString (c0 # t))) (c0 # t)). 0x80 \<le> byte x"
      by (intro Decode_consumed_high) simp
    with assms Cons show ?thesis by fastforce
  qed
qed

lemma ascii_in_runes:
  "c \<in> set s \<Longrightarrow> byte c < 0x80 \<Longrightarrow> byte c \<in> set (runes s)"
proof (induction s rule: runes.induct)
  case (1 s)
  from "1.prems"(1) have ne: "s \<noteq> []" by auto
  let ?w = "snd (DecodeRuneInString s)"
  have r: "runes s = fst (DecodeRuneInString s) # runes (drop ?w s)"
    using ne by (subst runes.simps) simp
  have "set s = set (take ?w s) \<union> set (drop ?w s)"
    by (simp only: set_append [symmetric] append_take_drop_id)
  with "1.prems"(1) have "c \<in> set (take ?w s) \<or> c \<in> set (drop ?w s)"
    by simp
  then show ?case
  proof
    assume "c \<in> set (take ?w s)"
    then have "fst (DecodeRuneInString s) = byte c"
      using "1.prems"(2) by (rule Decode_ascii_take)
    with r show ?thesis by simp
  next
    assume "c \<in> set (drop ?w s)"
    then have "byte c \<in> set (runes (drop ?w s))"
      using "1.IH" [OF ne] "1.prems"(2) by simp
    with r show ?thesis by simp
  qed
qed

lemma ToLower_ascii_lower:
  "\<forall>c\<in>set s. byte c < 0x80 \<and> \<not> isUpper c \<Longrightarrow> ToLower caseTable s = s"
proof (induction s)
  case Nil
  show ?case by (simp add: ToLower_def strings_Map.simps)
next
  case (Cons c s)
  then have a: "byte c < 0x80" and u: "\<not> isUpper c" by simp_all
  have "unicode_ToLower caseTable (byte c) = byte c"
    using a u by (auto simp: unicode_ToLower_def isUpper_byte)
  then have "EncodeRune (unicode_ToLower caseTable (byte c)) = [c]"
    using a by (simp add: EncodeRune_def byte_def)
  with Cons a show ?case by (simp add: ToLower_def strings_Map_ascii_Cons)
qed

lemma upper_changes:
  assumes "c \<in> set s" and "isUpper c"
  shows "ToLower caseTable s \<noteq> s"
proof
  assume "ToLower caseTable s = s"
  then have f: "\<forall>r\<in>set (runes s). writtenRune (unicode_ToLower caseTable r) = r"
    unfolding ToLower_def by (rule strings_Map_fixed)
  from assms(2) have b: "65 \<le> byte c" "byte c \<le> 90" by (simp_all add: isUpper_byte)
  then have "byte c \<in> set (runes s)" using assms(1) by (intro ascii_in_runes) simp_all
  with f have "writtenRune (unicode_ToLower caseTable (byte c)) = byte c" by simp
  moreover have "unicode_ToLower caseTable (byte c) = byte c + 32"
    using b by (simp add: unicode_ToLower_def)
  moreover have "validRune (byte c + 32)" using b by (simp add: validRune_def)
  ultimately show False by (simp add: writtenRune_def)
qed

lemma rune_changes:
  assumes "r \<in> set (runes s)" and "unicode_ToLower caseTable r \<noteq> r"
    and "validRune (unicode_ToLower caseTable r)"
  shows "ToLower caseTable s \<noteq> s"
proof
  assume "ToLower caseTable s = s"
  then have "\<forall>r\<in>set (runes s). writtenRune (unicode_ToLower caseTable r) = r"
    unfolding ToLower_def by (rule strings_Map_fixed)
  with assms(1) have "writtenRune (unicode_ToLower caseTable r) = r" by simp
  with assms(2,3) show False by (simp add: writtenRune_def)
qed



section \<open>The library prefix\<close>

lemma libraryLoop_fst: "fst (libraryLoop rs d r) = d"
  by (induction rs) simp_all

lemma libraryLoop_rewrites:
  assumes "\<not> ContainsRune r CHR ''/''" and "d \<in> set rs \<or> (d = '''' \<and> rs \<noteq> [])"
  shows "libraryLoop rs d r = (d, ''library/'' @ r)"
  using assms by (induction rs) auto

lemma libraryLoop_keeps:
  assumes "ContainsRune r CHR ''/'' \<or> (d \<noteq> '''' \<and> d \<notin> set rs) \<or> rs = []"
  shows "libraryLoop rs d r = (d, r)"
  using assms by (induction rs) auto

text \<open>
  When the library prefix is added: by the version with the two constants for an empty
  domain and for either constant, by the version with the list for a domain of the list,
  and for an empty domain if the list has an entry.
\<close>

lemma splitDockerDomain_ns_rewrites:
  assumes "splitAtDomain s = (d, n)" and "\<not> ContainsRune n CHR ''/''"
    and "d = DefaultNamespace \<or> d = DefaultRegistry \<or> d = ''''"
  shows "splitDockerDomain_ns DefaultNamespace DefaultRegistry s = (d, ''library/'' @ n)"
  using assms by (auto simp: splitDockerDomain_ns_def)

lemma splitDockerDomain_rewrites:
  assumes "splitAtDomain s = (d, n)" and "\<not> ContainsRune n CHR ''/''"
    and "d \<in> set rs \<or> (d = '''' \<and> rs \<noteq> [])"
  shows "splitDockerDomain rs s = (d, ''library/'' @ n)"
  using assms libraryLoop_rewrites [of n d rs] by (simp add: splitDockerDomain_def)

lemma splitDockerDomain_keeps:
  assumes "splitAtDomain s = (d, n)"
    and "ContainsRune n CHR ''/'' \<or> (d \<noteq> '''' \<and> d \<notin> set rs)"
  shows "splitDockerDomain rs s = (d, n)"
  using assms libraryLoop_keeps [of n d rs] by (auto simp: splitDockerDomain_def)

text \<open>
  Claim C7. The claim is that a name of one segment with an empty domain, or with the domain
  of a default registry, is parsed with the path \<open>library/\<close> and the name. The
  \<open>splitDockerDomain\<close> beside \<open>ParseNamed\<close> does that. The one beside
  \<open>ParseNormalizedNamed\<close> tests \<open>domain == ""\<close> inside its loop over
  \<open>registry.DefaultRegistries\<close>: with no default registry the loop has no iteration, and
  \<open>ubuntu\<close> is handed to the reference grammar as it is. With one default registry it is
  rewritten.
\<close>

theorem splitDockerDomain_without_default_registries:
  "splitDockerDomain [] ''ubuntu'' = ('''', ''ubuntu'') \<and>
   ParseNormalizedNamed exRefLib caseTable [] ''ubuntu'' = Inr (''ubuntu'', None) \<and>
   splitDockerDomain [''docker.io''] ''ubuntu'' = ('''', ''library/ubuntu'') \<and>
   splitDockerDomain_ns DefaultNamespace DefaultRegistry ''ubuntu'' = ('''', ''library/ubuntu'')"
proof -
  have l: "ToLower caseTable ''ubuntu'' = ''ubuntu''"
    by (rule ToLower_ascii_lower) (simp add: byte_def isUpper_def less_eq_char_def)
  show ?thesis
    by (simp add: ParseNormalizedNamed_def parseSplit_def splitDockerDomain_def
          splitDockerDomain_ns_def splitAtDomain_def exRefLib_def ContainsRune_def
          anchoredIdentifierRegexp_MatchString_def remoteNameOf_def l)
qed

section \<open>What ParseNormalizedNamed rejects\<close>

lemma set_remoteNameOf: "set (remoteNameOf r) \<subseteq> set r"
  by (auto simp: remoteNameOf_def split: option.splits dest: in_set_takeD)

lemma set_splitAtDomain: "set (snd (splitAtDomain name)) \<subseteq> set name"
  by (auto simp: splitAtDomain_def split: option.splits dest: in_set_dropD)

lemma set_libraryLoop: "set (snd (libraryLoop rs d r)) \<subseteq> set r \<union> set ''library/''"
  by (induction rs) auto

lemma set_splitDockerDomain:
  "set (snd (splitDockerDomain rs name)) \<subseteq> set name \<union> set ''library/''"
proof -
  obtain d r where dr: "splitAtDomain name = (d, r)" by (cases "splitAtDomain name")
  then have "set r \<subseteq> set name" using set_splitAtDomain [of name] by simp
  then show ?thesis
    using set_libraryLoop [of rs d r] dr by (auto simp: splitDockerDomain_def)
qed

lemma hex_lower: "c \<in> set ''0123456789abcdef'' \<Longrightarrow> byte c < 0x80 \<and> \<not> isUpper c"
  by (auto simp: isUpper_def byte_def less_eq_char_def)

lemma library_lower: "c \<in> set ''library/'' \<Longrightarrow> byte c < 0x80 \<and> \<not> isUpper c"
  by (auto simp: isUpper_def byte_def less_eq_char_def)

lemma hex_remoteName_lower:
  assumes "anchoredIdentifierRegexp_MatchString raw"
  shows "ToLower caseTable (remoteNameOf (snd (splitDockerDomain rs raw))) =
         remoteNameOf (snd (splitDockerDomain rs raw))"
proof (rule ToLower_ascii_lower, rule ballI)
  fix c
  assume "c \<in> set (remoteNameOf (snd (splitDockerDomain rs raw)))"
  then have "c \<in> set raw \<union> set ''library/''"
    using set_remoteNameOf set_splitDockerDomain by blast
  moreover have "\<forall>x\<in>set raw. x \<in> set ''0123456789abcdef''"
    using assms by (simp add: anchoredIdentifierRegexp_MatchString_def list_all_iff)
  ultimately have "c \<in> set ''0123456789abcdef'' \<or> c \<in> set ''library/''"
    by blast
  then show "byte c < 0x80 \<and> \<not> isUpper c"
    using hex_lower [of c] library_lower [of c] by blast
qed

lemma not_lowercase:
  assumes "ToLower caseTable (remoteNameOf (snd (splitDockerDomain rs raw))) \<noteq>
           remoteNameOf (snd (splitDockerDomain rs raw))"
  shows "ParseNormalizedNamed L caseTable rs raw = Inl ErrNotLowercase"
proof -
  have "\<not> anchoredIdentifierRegexp_MatchString raw"
    using assms hex_remoteName_lower by blast
  with assms show ?thesis
    by (simp add: ParseNormalizedNamed_def parseSplit_def split_beta Let_def)
qed

text \<open>
  Claim C9. \<open>ParseNormalizedNamed\<close> fails for every string of 64 hexadecimal digits, with
  the error about 64-byte hexadecimal strings. It fails with the error that the repository
  name must be lowercase for every string whose remote name (the remainder that
  \<open>splitDockerDomain\<close> gives, up to its first colon) is not in lower case already, that is,
  differs from what \<open>strings.ToLower\<close> makes of it: so whenever the remote name has one of
  the letters \<open>A\<close> to \<open>Z\<close>, and whenever it has a code point that the case table of the
  library maps to another code point, whatever that table is. It never lowers a letter
  itself: when it returns a reference, the remote name was in lower case already and the
  reference is what the grammar made of the domain and the remainder as they were split.
\<close>

theorem parse_rejects_hex_identifier_and_uppercase:
  "(anchoredIdentifierRegexp_MatchString raw \<longrightarrow>
      ParseNormalizedNamed L caseTable DefaultRegistries raw = Inl (ErrHexIdentifier raw)) \<and>
   ((\<exists>c\<in>set (remoteNameOf (snd (splitDockerDomain DefaultRegistries raw))). isUpper c) \<longrightarrow>
      ParseNormalizedNamed L caseTable DefaultRegistries raw = Inl ErrNotLowercase) \<and>
   ((\<exists>r\<in>set (runes (remoteNameOf (snd (splitDockerDomain DefaultRegistries raw)))).
        unicode_ToLower caseTable r \<noteq> r \<and> validRune (unicode_ToLower caseTable r)) \<longrightarrow>
      ParseNormalizedNamed L caseTable DefaultRegistries raw = Inl ErrNotLowercase) \<and>
   (ToLower caseTable (remoteNameOf (snd (splitDockerDomain DefaultRegistries raw))) \<noteq>
      remoteNameOf (snd (splitDockerDomain DefaultRegistries raw)) \<longrightarrow>
      ParseNormalizedNamed L caseTable DefaultRegistries raw = Inl ErrNotLowercase) \<and>
   (ParseNormalizedNamed L caseTable DefaultRegistries raw = Inr ref \<longrightarrow>
      ToLower caseTable (remoteNameOf (snd (splitDockerDomain DefaultRegistries raw))) =
        remoteNameOf (snd (splitDockerDomain DefaultRegistries raw)) \<and>
      Parse L (if fst (splitDockerDomain DefaultRegistries raw) = ''''
               then snd (splitDockerDomain DefaultRegistries raw)
               else fst (splitDockerDomain DefaultRegistries raw) @ ''/'' @
                    snd (splitDockerDomain DefaultRegistries raw)) = Inr ref)"
proof (intro conjI impI)
  assume "anchoredIdentifierRegexp_MatchString raw"
  then show "ParseNormalizedNamed L caseTable DefaultRegistries raw = Inl (ErrHexIdentifier raw)"
    by (simp add: ParseNormalizedNamed_def)
next
  assume "\<exists>c\<in>set (remoteNameOf (snd (splitDockerDomain DefaultRegistries raw))). isUpper c"
  then obtain c where "c \<in> set (remoteNameOf (snd (splitDockerDomain DefaultRegistries raw)))"
    and "isUpper c" ..
  then have "ToLower caseTable (remoteNameOf (snd (splitDockerDomain DefaultRegistries raw))) \<noteq>
             remoteNameOf (snd (splitDockerDomain DefaultRegistries raw))"
    by (rule upper_changes)
  then show "ParseNormalizedNamed L caseTable DefaultRegistries raw = Inl ErrNotLowercase"
    by (rule not_lowercase)
next
  assume "\<exists>r\<in>set (runes (remoteNameOf (snd (splitDockerDomain DefaultRegistries raw)))).
        unicode_ToLower caseTable r \<noteq> r \<and> validRune (unicode_ToLower caseTable r)"
  then obtain r where
    r: "r \<in> set (runes (remoteNameOf (snd (splitDockerDomain DefaultRegistries raw))))"
    and c: "unicode_ToLower caseTable r \<noteq> r \<and> validRune (unicode_ToLower caseTable r)" ..
  from c have c1: "unicode_ToLower caseTable r \<noteq> r"
    and c2: "validRune (unicode_ToLower caseTable r)" by simp_all
  have "ToLower caseTable (remoteNameOf (snd (splitDockerDomain DefaultRegistries raw))) \<noteq>
        remoteNameOf (snd (splitDockerDomain DefaultRegistries raw))"
    by (rule rune_changes [OF r c1 c2])
  then show "ParseNormalizedNamed L caseTable DefaultRegistries raw = Inl ErrNotLowercase"
    by (rule not_lowercase)
next
  assume "ToLower caseTable (remoteNameOf (snd (splitDockerDomain DefaultRegistries raw))) \<noteq>
          remoteNameOf (snd (splitDockerDomain DefaultRegistries raw))"
  then show "ParseNormalizedNamed L caseTable DefaultRegistries raw = Inl ErrNotLowercase"
    by (rule not_lowercase)
next
  assume r: "ParseNormalizedNamed L caseTable DefaultRegistries raw = Inr ref"
  then show "ToLower caseTable (remoteNameOf (snd (splitDockerDomain DefaultRegistries raw))) =
        remoteNameOf (snd (splitDockerDomain DefaultRegistries raw))"
    by (auto simp: ParseNormalizedNamed_def parseSplit_def split_beta Let_def
          split: if_splits)
  from r show "Parse L (if fst (splitDockerDomain DefaultRegistries raw) = ''''
               then snd (splitDockerDomain DefaultRegistries raw)
               else fst (splitDockerDomain DefaultRegistries raw) @ ''/'' @
                    snd (splitDockerDomain DefaultRegistries raw)) = Inr ref"
    by (auto simp: ParseNormalizedNamed_def parseSplit_def split_beta Let_def
          split: if_splits sum.splits)
qed

theorem parse_rejects_hex_identifier_and_uppercase_witness:
  "ParseNormalizedNamed exRefLib exCaseTable [''docker.io'']
     ''0123456789abcdef0123456789abcdef0123456789abcdef0123456789abcdef'' =
     Inl (ErrHexIdentifier ''0123456789abcdef0123456789abcdef0123456789abcdef0123456789abcdef'') \<and>
   ParseNormalizedNamed exRefLib exCaseTable [''docker.io''] ''quay.io/Foo/bar:v1'' =
     Inl ErrNotLowercase \<and>
   ParseNormalizedNamed exRefLib exCaseTable [''docker.io''] ''Ubuntu'' = Inl ErrNotLowercase \<and>
   ParseNormalizedNamed exRefLib exCaseTable [''docker.io''] [CHR 0xC3, CHR 0x89, CHR ''x''] =
     Inl ErrNotLowercase \<and>
   ParseNormalizedNamed exRefLib exCaseTable [''docker.io''] ''ubuntu:V1'' =
     Inr (''library/ubuntu'', Some ''V1'') \<and>
   Parse exRefLib ''library/ubuntu:V1'' = Inr (''library/ubuntu'', Some ''V1'')"
proof -
  have h: "anchoredIdentifierRegexp_MatchString
             ''0123456789abcdef0123456789abcdef0123456789abcdef0123456789abcdef''"
    by (simp add: anchoredIdentifierRegexp_MatchString_def)
  have s1: "splitDockerDomain [''docker.io''] ''quay.io/Foo/bar:v1'' = (''quay.io'', ''Foo/bar:v1'')"
    by (simp add: splitDockerDomain_def splitAtDomain_def ContainsRune_def)
  have s2: "splitDockerDomain [''docker.io''] ''Ubuntu'' = ('''', ''library/Ubuntu'')"
    by (simp add: splitDockerDomain_def splitAtDomain_def ContainsRune_def)
  have s3: "splitDockerDomain [''docker.io''] ''ubuntu:V1'' = ('''', ''library/ubuntu:V1'')"
    by (simp add: splitDockerDomain_def splitAtDomain_def ContainsRune_def)
  have s4: "splitDockerDomain [''docker.io''] [CHR 0xC3, CHR 0x89, CHR ''x''] =
            ('''', ''library/'' @ [CHR 0xC3, CHR 0x89, CHR ''x''])"
    by (simp add: splitDockerDomain_def splitAtDomain_def ContainsRune_def)
  have rn4: "remoteNameOf (''library/'' @ [CHR 0xC3, CHR 0x89, CHR ''x'']) =
             ''library/'' @ [CHR 0xC3, CHR 0x89, CHR ''x'']"
    by (simp add: remoteNameOf_def)
  have r4: "201 \<in> set (runes (''library/'' @ [CHR 0xC3, CHR 0x89, CHR ''x'']))"
    by (simp add: runes.simps DecodeRuneInString_def byte_def inRange_def)
  have c4: "unicode_ToLower exCaseTable 201 \<noteq> 201 \<and> validRune (unicode_ToLower exCaseTable 201)"
    by (simp add: unicode_ToLower_def exCaseTable_def validRune_def)
  have u1: "isUpper CHR ''F''" and u2: "isUpper CHR ''U''"
    by (simp_all add: isUpper_def less_eq_char_def)
  have l: "ToLower exCaseTable ''library/ubuntu'' = ''library/ubuntu''"
    by (rule ToLower_ascii_lower) (simp add: byte_def isUpper_def less_eq_char_def)
  have r: "ParseNormalizedNamed exRefLib exCaseTable [''docker.io''] ''ubuntu:V1'' =
     Inr (''library/ubuntu'', Some ''V1'')"
    by (simp add: ParseNormalizedNamed_def parseSplit_def s3 exRefLib_def
          anchoredIdentifierRegexp_MatchString_def remoteNameOf_def l)
  note t = parse_rejects_hex_identifier_and_uppercase
  have p1: "\<exists>c\<in>set (remoteNameOf (snd (splitDockerDomain [''docker.io''] ''quay.io/Foo/bar:v1''))).
              isUpper c"
    using u1 by (simp add: s1 remoteNameOf_def)
  have p2: "\<exists>c\<in>set (remoteNameOf (snd (splitDockerDomain [''docker.io''] ''Ubuntu''))). isUpper c"
    using u2 by (simp add: s2 remoteNameOf_def)
  have p3: "\<exists>r\<in>set (runes (remoteNameOf (snd (splitDockerDomain [''docker.io'']
                [CHR 0xC3, CHR 0x89, CHR ''x''])))).
              unicode_ToLower exCaseTable r \<noteq> r \<and> validRune (unicode_ToLower exCaseTable r)"
    unfolding s4 snd_conv rn4 using r4 c4 by (rule bexI [rotated])
  have a1: "ParseNormalizedNamed exRefLib exCaseTable [''docker.io'']
     ''0123456789abcdef0123456789abcdef0123456789abcdef0123456789abcdef'' =
     Inl (ErrHexIdentifier ''0123456789abcdef0123456789abcdef0123456789abcdef0123456789abcdef'')"
    using t [of "''0123456789abcdef0123456789abcdef0123456789abcdef0123456789abcdef''"
               exRefLib exCaseTable "[''docker.io'']" "(''x'', None)", THEN conjunct1] h
    by (rule mp)
  have a2: "ParseNormalizedNamed exRefLib exCaseTable [''docker.io''] ''quay.io/Foo/bar:v1'' =
     Inl ErrNotLowercase"
    using t [of "''quay.io/Foo/bar:v1''" exRefLib exCaseTable "[''docker.io'']" "(''x'', None)",
             THEN conjunct2, THEN conjunct1] p1
    by (rule mp)
  have a3: "ParseNormalizedNamed exRefLib exCaseTable [''docker.io''] ''Ubuntu'' =
     Inl ErrNotLowercase"
    using t [of "''Ubuntu''" exRefLib exCaseTable "[''docker.io'']" "(''x'', None)",
             THEN conjunct2, THEN conjunct1] p2
    by (rule mp)
  have a4: "ParseNormalizedNamed exRefLib exCaseTable [''docker.io'']
     [CHR 0xC3, CHR 0x89, CHR ''x''] = Inl ErrNotLowercase"
    using t [of "[CHR 0xC3, CHR 0x89, CHR ''x'']" exRefLib exCaseTable "[''docker.io'']" "(''x'', None)",
             THEN conjunct2, THEN conjunct2, THEN conjunct1] p3
    by (rule mp)
  have a5: "Parse exRefLib ''library/ubuntu:V1'' = Inr (''library/ubuntu'', Some ''V1'')"
    using t [of "''ubuntu:V1''" exRefLib exCaseTable "[''docker.io'']"
               "(''library/ubuntu'', Some ''V1'')",
             THEN conjunct2, THEN conjunct2, THEN conjunct2, THEN conjunct2, THEN mp, OF r]
    by (simp add: s3)
  show ?thesis
    using a1 a2 a3 a4 r a5 by (intro conjI)
qed

section \<open>Qualifying a reference\<close>

lemma SubstituteReferenceName_error:
  "SubstituteReferenceName L ref n = Inl e \<Longrightarrow> \<exists>m. e = Foreign m"
  by (auto simp: SubstituteReferenceName_def split: sum.splits option.splits)

lemma SplitReposName_unqualified:
  assumes "\<not> IsReferenceFullyQualified L ref"
  shows "SplitReposName L ref = ('''', Some ref, None)"
proof -
  obtain i r where s: "SplitHostname L ref = (i, r)" by (cases "SplitHostname L ref")
  show ?thesis
  proof (cases "isValidHostname i")
    case False
    with s show ?thesis by (simp add: SplitReposName_def)
  next
    case True
    then have "i \<noteq> ''''" by (auto simp: isValidHostname_def)
    with True s assms show ?thesis
      by (auto simp: IsReferenceFullyQualified_def SplitReposName_def split: sum.splits)
  qed
qed

lemma SplitReposName_qualified:
  assumes "IsReferenceFullyQualified L ref"
    and "WithName L (snd (SplitHostname L ref)) = Inr rn"
  shows "SplitReposName L ref = (fst (SplitHostname L ref), Some rn, None)"
    and "fst (SplitHostname L ref) \<noteq> ''''"
proof -
  obtain i r where s: "SplitHostname L ref = (i, r)" by (cases "SplitHostname L ref")
  have v: "isValidHostname i"
  proof (rule ccontr)
    assume "\<not> isValidHostname i"
    with s have "SplitReposName L ref = ('''', Some ref, None)" by (simp add: SplitReposName_def)
    with assms(1) show False by (simp add: IsReferenceFullyQualified_def)
  qed
  then show "fst (SplitHostname L ref) \<noteq> ''''" using s by (auto simp: isValidHostname_def)
  show "SplitReposName L ref = (fst (SplitHostname L ref), Some rn, None)"
    using v s assms(2) by (simp add: SplitReposName_def)
qed

lemma Qualify_invalid:
  "\<not> isValidHostname h \<Longrightarrow> QualifyUnqualifiedReference L ref h = Inl (ErrInvalidHostname h)"
  by (simp add: QualifyUnqualifiedReference_def)

lemma SplitReposName_remote:
  "SplitReposName L ref = (orig, rn, None) \<Longrightarrow> rn \<noteq> None"
  by (auto simp: SplitReposName_def split_beta split: if_splits sum.splits)

lemma SplitReposName_error:
  "SplitReposName L ref = (orig, rn, Some x) \<Longrightarrow> \<exists>m. x = Foreign m"
  by (auto simp: SplitReposName_def split_beta split: if_splits sum.splits)

lemma Qualify_valid_error:
  assumes "isValidHostname h" and "QualifyUnqualifiedReference L ref h = Inl e"
  shows "\<exists>m. e = Foreign m"
proof -
  obtain orig rn err where s: "SplitReposName L ref = (orig, rn, err)"
    by (cases "SplitReposName L ref")
  show ?thesis
  proof (cases err)
    case (Some x)
    with assms s have "e = x" by (simp add: QualifyUnqualifiedReference_def)
    moreover from s Some have "SplitReposName L ref = (orig, rn, Some x)" by simp
    then have "\<exists>m. x = Foreign m" by (rule SplitReposName_error)
    ultimately show ?thesis by simp
  next
    case None
    with s have "SplitReposName L ref = (orig, rn, None)" by simp
    then have "rn \<noteq> None" by (rule SplitReposName_remote)
    then obtain r where r: "rn = Some r" by (cases rn) simp_all
    with None assms s have
      "SubstituteReferenceName L ref (h @ ''/'' @ Name_of L r) = Inl e"
      by (auto simp: QualifyUnqualifiedReference_def split: if_splits)
    then show ?thesis by (rule SubstituteReferenceName_error)
  qed
qed

lemma Qualify_unqualified:
  assumes "isValidHostname h" and "\<not> IsReferenceFullyQualified L ref"
  shows "QualifyUnqualifiedReference L ref h =
         SubstituteReferenceName L ref (h @ ''/'' @ Name_of L ref)"
  using assms(1) SplitReposName_unqualified [OF assms(2)]
  by (simp add: QualifyUnqualifiedReference_def)

lemma Qualify_qualified:
  assumes "isValidHostname h" and "IsReferenceFullyQualified L ref"
    and "WithName L (snd (SplitHostname L ref)) = Inr rn"
  shows "QualifyUnqualifiedReference L ref h = Inr ref"
  using assms(1) SplitReposName_qualified [OF assms(2,3)]
  by (simp add: QualifyUnqualifiedReference_def)

lemma Qualify_Inr_valid:
  "QualifyUnqualifiedReference L ref h = Inr ref' \<Longrightarrow> isValidHostname h"
  by (auto simp: QualifyUnqualifiedReference_def split: if_splits)

lemma Qualify_qualified_same:
  assumes "QualifyUnqualifiedReference L ref h = Inr ref'" and "IsReferenceFullyQualified L ref"
  shows "ref' = ref"
proof -
  obtain orig rn err where s: "SplitReposName L ref = (orig, rn, err)"
    by (cases "SplitReposName L ref")
  with assms(2) have o: "orig \<noteq> ''''" by (simp add: IsReferenceFullyQualified_def)
  from assms(1) s o show ?thesis
    by (auto simp: QualifyUnqualifiedReference_def split: if_splits option.splits)
qed

text \<open>
  Claim C8 as it is written does not hold: qualifying twice need not give what qualifying
  once gives. \<open>isValidHostname\<close> accepts \<open>a_b.c\<close> (it has a dot and no slash), and
  the reference \<open>foo/bar\<close> becomes \<open>a_b.c/foo/bar\<close>. An underscore cannot occur in a
  domain of the reference grammar, so the library splits no domain off that name,
  \<open>SplitReposName\<close> finds no index in it, and the second call prefixes it once more.
\<close>

theorem qualify_twice_prefixes_twice:
  "isValidHostname ''a_b.c'' \<and>
   QualifyUnqualifiedReference grammarRefLib (''foo/bar'', None) ''a_b.c'' =
     Inr (''a_b.c/foo/bar'', None) \<and>
   QualifyUnqualifiedReference grammarRefLib (''a_b.c/foo/bar'', None) ''a_b.c'' =
     Inr (''a_b.c/a_b.c/foo/bar'', None) \<and>
   QualifyUnqualifiedReference grammarRefLib (''a_b.c/foo/bar'', None) ''a_b.c'' \<noteq>
     QualifyUnqualifiedReference grammarRefLib (''foo/bar'', None) ''a_b.c''"
proof -
  have v: "isValidHostname ''a_b.c''"
    by (simp add: isValidHostname_def Contains_def)
  have d: "\<not> domainChar CHR ''_''"
    by (simp add: domainChar_def less_eq_char_def)
  have s1: "SplitReposName grammarRefLib (''foo/bar'', None) = ('''', Some (''foo/bar'', None), None)"
    by (simp add: SplitReposName_def grammarRefLib_def exRefLib_def domainChar_def
          less_eq_char_def isValidHostname_def Contains_def)
  have s2: "SplitReposName grammarRefLib (''a_b.c/foo/bar'', None) =
            ('''', Some (''a_b.c/foo/bar'', None), None)"
    by (simp add: SplitReposName_def grammarRefLib_def exRefLib_def d isValidHostname_def)
  have n: "Name_of grammarRefLib = fst"
    by (simp add: grammarRefLib_def exRefLib_def)
  have b1: "SubstituteReferenceName grammarRefLib (''foo/bar'', None) ''a_b.c/foo/bar'' =
            Inr (''a_b.c/foo/bar'', None)"
    by (simp add: SubstituteReferenceName_def grammarRefLib_def exRefLib_def)
  have b2: "SubstituteReferenceName grammarRefLib (''a_b.c/foo/bar'', None)
              ''a_b.c/a_b.c/foo/bar'' = Inr (''a_b.c/a_b.c/foo/bar'', None)"
    by (simp add: SubstituteReferenceName_def grammarRefLib_def exRefLib_def)
  have q1: "QualifyUnqualifiedReference grammarRefLib (''foo/bar'', None) ''a_b.c'' =
     Inr (''a_b.c/foo/bar'', None)"
    by (simp add: QualifyUnqualifiedReference_def v s1 n b1)
  have q2: "QualifyUnqualifiedReference grammarRefLib (''a_b.c/foo/bar'', None) ''a_b.c'' =
     Inr (''a_b.c/a_b.c/foo/bar'', None)"
    by (simp add: QualifyUnqualifiedReference_def v s2 n b2)
  show ?thesis
    by (simp add: v q1 q2)
qed

text \<open>
  Claim C8, amended. \<open>QualifyUnqualifiedReference\<close> fails with the invalid-hostname error
  exactly when the index name fails \<open>isValidHostname\<close> (the errors of the reference library
  are other values). With a valid index name, a reference without an index gets the name
  \<open>indexName/name\<close> by \<open>SubstituteReferenceName\<close>, and a reference with an index, whose remote
  name the library accepts, is returned as it is. Qualifying the result once more with
  the same index name gives the same reference when the reference had an index already,
  and after the prefixing when \<open>SplitReposName\<close> finds an index in the prefixed reference
  and the library accepts its remote name.
\<close>

theorem qualify_invalid_hostname_iff_prefix_idempotent:
  "((\<exists>m. QualifyUnqualifiedReference L ref h = Inl (ErrInvalidHostname m)) =
      (\<not> isValidHostname h)) \<and>
   (\<not> isValidHostname h \<longrightarrow>
      QualifyUnqualifiedReference L ref h = Inl (ErrInvalidHostname h)) \<and>
   (isValidHostname h \<and> \<not> IsReferenceFullyQualified L ref \<longrightarrow>
      QualifyUnqualifiedReference L ref h =
        SubstituteReferenceName L ref (h @ ''/'' @ Name_of L ref)) \<and>
   (isValidHostname h \<and> IsReferenceFullyQualified L ref \<and>
    WithName L (snd (SplitHostname L ref)) = Inr rn \<longrightarrow>
      QualifyUnqualifiedReference L ref h = Inr ref) \<and>
   (QualifyUnqualifiedReference L ref h = Inr ref' \<and> IsReferenceFullyQualified L ref \<longrightarrow>
      ref' = ref \<and> QualifyUnqualifiedReference L ref' h = Inr ref') \<and>
   (QualifyUnqualifiedReference L ref h = Inr ref' \<and> IsReferenceFullyQualified L ref' \<and>
    WithName L (snd (SplitHostname L ref')) = Inr rn' \<longrightarrow>
      QualifyUnqualifiedReference L ref' h = Inr ref')"
proof (intro conjI impI)
  show "(\<exists>m. QualifyUnqualifiedReference L ref h = Inl (ErrInvalidHostname m)) =
        (\<not> isValidHostname h)"
  proof
    assume "\<exists>m. QualifyUnqualifiedReference L ref h = Inl (ErrInvalidHostname m)"
    then obtain m where m: "QualifyUnqualifiedReference L ref h = Inl (ErrInvalidHostname m)" ..
    show "\<not> isValidHostname h"
    proof
      assume "isValidHostname h"
      from Qualify_valid_error [OF this m] show False by simp
    qed
  next
    assume "\<not> isValidHostname h"
    then have "QualifyUnqualifiedReference L ref h = Inl (ErrInvalidHostname h)"
      by (rule Qualify_invalid)
    then show "\<exists>m. QualifyUnqualifiedReference L ref h = Inl (ErrInvalidHostname m)"
      by (rule exI)
  qed
next
  assume "\<not> isValidHostname h"
  then show "QualifyUnqualifiedReference L ref h = Inl (ErrInvalidHostname h)"
    by (rule Qualify_invalid)
next
  assume a: "isValidHostname h \<and> \<not> IsReferenceFullyQualified L ref"
  show "QualifyUnqualifiedReference L ref h =
        SubstituteReferenceName L ref (h @ ''/'' @ Name_of L ref)"
    by (rule Qualify_unqualified) (use a in simp_all)
next
  assume a: "isValidHostname h \<and> IsReferenceFullyQualified L ref \<and>
    WithName L (snd (SplitHostname L ref)) = Inr rn"
  show "QualifyUnqualifiedReference L ref h = Inr ref"
    by (rule Qualify_qualified [where rn = rn]) (use a in simp_all)
next
  assume a: "QualifyUnqualifiedReference L ref h = Inr ref' \<and> IsReferenceFullyQualified L ref"
  show same: "ref' = ref"
    by (rule Qualify_qualified_same [where L = L and h = h]) (use a in simp_all)
  from a same show "QualifyUnqualifiedReference L ref' h = Inr ref'" by simp
next
  assume a: "QualifyUnqualifiedReference L ref h = Inr ref' \<and> IsReferenceFullyQualified L ref' \<and>
    WithName L (snd (SplitHostname L ref')) = Inr rn'"
  have v: "isValidHostname h"
    by (rule Qualify_Inr_valid [where L = L and ref = ref and ref' = ref']) (use a in simp)
  show "QualifyUnqualifiedReference L ref' h = Inr ref'"
    by (rule Qualify_qualified [where rn = rn']) (use a v in simp_all)
qed

theorem qualify_invalid_hostname_iff_prefix_idempotent_witness:
  "QualifyUnqualifiedReference exRefLib (''foo/bar'', Some ''v1'') ''registry'' =
     Inl (ErrInvalidHostname ''registry'') \<and>
   QualifyUnqualifiedReference exRefLib (''foo/bar'', Some ''v1'') ''my.reg'' =
     Inr (''my.reg/foo/bar'', Some ''v1'') \<and>
   QualifyUnqualifiedReference exRefLib (''my.reg/foo/bar'', Some ''v1'') ''my.reg'' =
     Inr (''my.reg/foo/bar'', Some ''v1'') \<and>
   QualifyUnqualifiedReference exRefLib (''quay.io/foo'', None) ''my.reg'' =
     Inr (''quay.io/foo'', None) \<and>
   QualifyUnqualifiedReference grammarRefLib (''foo/bar'', None) ''my.reg'' =
     Inr (''my.reg/foo/bar'', None) \<and>
   QualifyUnqualifiedReference grammarRefLib (''my.reg/foo/bar'', None) ''my.reg'' =
     Inr (''my.reg/foo/bar'', None)"
proof -
  have v: "isValidHostname ''my.reg''" and nv: "\<not> isValidHostname ''registry''"
    by (simp_all add: isValidHostname_def Contains_def)
  have u: "\<not> IsReferenceFullyQualified exRefLib (''foo/bar'', Some ''v1'')"
    by (simp add: IsReferenceFullyQualified_def SplitReposName_def exRefLib_def
          isValidHostname_def Contains_def)
  have q1: "IsReferenceFullyQualified exRefLib (''my.reg/foo/bar'', Some ''v1'')"
    by (simp add: IsReferenceFullyQualified_def SplitReposName_def exRefLib_def
          isValidHostname_def Contains_def)
  have q2: "IsReferenceFullyQualified exRefLib (''quay.io/foo'', None)"
    by (simp add: IsReferenceFullyQualified_def SplitReposName_def exRefLib_def
          isValidHostname_def Contains_def)
  have s: "SubstituteReferenceName exRefLib (''foo/bar'', Some ''v1'') ''my.reg/foo/bar'' =
           Inr (''my.reg/foo/bar'', Some ''v1'')"
    by (simp add: SubstituteReferenceName_def exRefLib_def)
  have w1: "WithName exRefLib (snd (SplitHostname exRefLib (''my.reg/foo/bar'', Some ''v1''))) =
            Inr (''foo/bar'', None)"
    by (simp add: exRefLib_def)
  have w2: "WithName exRefLib (snd (SplitHostname exRefLib (''quay.io/foo'', None))) =
            Inr (''foo'', None)"
    by (simp add: exRefLib_def)
  have n: "Name_of exRefLib (''foo/bar'', Some ''v1'') = ''foo/bar''"
    by (simp add: exRefLib_def)
  have gu: "\<not> IsReferenceFullyQualified grammarRefLib (''foo/bar'', None)"
    by (simp add: IsReferenceFullyQualified_def SplitReposName_def grammarRefLib_def
          exRefLib_def domainChar_def less_eq_char_def isValidHostname_def Contains_def)
  have gq: "IsReferenceFullyQualified grammarRefLib (''my.reg/foo/bar'', None)"
    by (simp add: IsReferenceFullyQualified_def SplitReposName_def grammarRefLib_def
          exRefLib_def domainChar_def less_eq_char_def isValidHostname_def Contains_def)
  have gs: "SubstituteReferenceName grammarRefLib (''foo/bar'', None) ''my.reg/foo/bar'' =
           Inr (''my.reg/foo/bar'', None)"
    by (simp add: SubstituteReferenceName_def grammarRefLib_def exRefLib_def)
  have gw: "WithName grammarRefLib (snd (SplitHostname grammarRefLib (''my.reg/foo/bar'', None))) =
            Inr (''foo/bar'', None)"
    by (simp add: grammarRefLib_def exRefLib_def domainChar_def less_eq_char_def)
  have gn: "Name_of grammarRefLib (''foo/bar'', None) = ''foo/bar''"
    by (simp add: grammarRefLib_def exRefLib_def)
  note t = qualify_invalid_hostname_iff_prefix_idempotent
  have g1: "QualifyUnqualifiedReference grammarRefLib (''foo/bar'', None) ''my.reg'' =
     Inr (''my.reg/foo/bar'', None)"
    using t [of grammarRefLib "(''foo/bar'', None)" "''my.reg''" "(''foo'', None)"
                "(''my.reg/foo/bar'', None)" "(''foo/bar'', None)"] v gu gs gn
    by simp
  have g2: "QualifyUnqualifiedReference grammarRefLib (''my.reg/foo/bar'', None) ''my.reg'' =
     Inr (''my.reg/foo/bar'', None)"
    using t [of grammarRefLib "(''foo/bar'', None)" "''my.reg''" "(''foo'', None)"
                "(''my.reg/foo/bar'', None)" "(''foo/bar'', None)"] g1 gq gw
    by simp
  have e: "QualifyUnqualifiedReference exRefLib (''foo/bar'', Some ''v1'') ''registry'' =
     Inl (ErrInvalidHostname ''registry'') \<and>
   QualifyUnqualifiedReference exRefLib (''foo/bar'', Some ''v1'') ''my.reg'' =
     Inr (''my.reg/foo/bar'', Some ''v1'') \<and>
   QualifyUnqualifiedReference exRefLib (''my.reg/foo/bar'', Some ''v1'') ''my.reg'' =
     Inr (''my.reg/foo/bar'', Some ''v1'') \<and>
   QualifyUnqualifiedReference exRefLib (''quay.io/foo'', None) ''my.reg'' =
     Inr (''quay.io/foo'', None)"
    using t [of exRefLib "(''foo/bar'', Some ''v1'')" "''registry''"]
          t [of exRefLib "(''foo/bar'', Some ''v1'')" "''my.reg''" _
                "(''my.reg/foo/bar'', Some ''v1'')" "(''foo/bar'', None)"]
          t [of exRefLib "(''quay.io/foo'', None)" "''my.reg''" "(''foo'', None)"]
          v nv u q1 q2 s w1 w2 n
    by simp
  from e g1 g2 show ?thesis by simp
qed

end
